theory Spec2Isabelle
  imports Main
begin

section \<open>The type system of the mtail compiler (package types)\<close>

subsection \<open>Types, type variables and the heap\<close>

text \<open>
  A Go \<^verbatim>\<open>Type\<close> is one of \<^verbatim>\<open>*Variable\<close>, \<^verbatim>\<open>*Operator\<close> and \<^verbatim>\<open>*TypeError\<close>.
  A \<^verbatim>\<open>*Variable\<close> is a pointer to a mutable cell holding \<^verbatim>\<open>ID\<close> and \<^verbatim>\<open>Instance\<close>
  (\<^verbatim>\<open>nil\<close> when unbound), so the model carries the address of the cell and keeps the cells
  in an explicit heap. Operators and type errors are only ever compared by their fields,
  so they are values. A failure is either a run-time panic (an index out of range) or the
  exhaustion of the recursion budget, which stands for a call that never returns (in Go:
  a chain of instances that runs in a circle, where \<^verbatim>\<open>Root\<close> locks a mutex it already
  holds).
\<close>

datatype failure = OutOfFuel | IndexOutOfRange

datatype errkind = ErrRecursiveUnification | ErrTypeMismatch | ErrInternal

datatype ty =
    Variable nat
  | Operator string "ty list"
  | TypeError "errkind option" "ty option" "ty option"

record cell =
  ID :: int
  Instance :: "ty option"

type_synonym heap = "nat \<Rightarrow> cell"

type_synonym 'a M = "heap \<Rightarrow> failure + ('a \<times> heap)"

definition ret :: "'a \<Rightarrow> 'a M" where
  "ret x h = Inr (x, h)"

definition fail :: "failure \<Rightarrow> 'a M" where
  "fail e h = Inl e"

definition seq :: "'a M \<Rightarrow> ('a \<Rightarrow> 'b M) \<Rightarrow> 'b M" where
  "seq m f h = (case m h of Inl e \<Rightarrow> Inl e | Inr (x, h') \<Rightarrow> f x h')"

text \<open>Go's short-circuit \<^verbatim>\<open>&&\<close> and \<^verbatim>\<open>||\<close> on calls that read and write the heap.\<close>

definition andM :: "bool M \<Rightarrow> bool M \<Rightarrow> bool M" where
  "andM p q = seq p (\<lambda>b. if b then q else ret False)"

definition orM :: "bool M \<Rightarrow> bool M \<Rightarrow> bool M" where
  "orM p q = seq p (\<lambda>b. if b then ret True else q)"

text \<open>\<^verbatim>\<open>func (t *Variable) SetInstance(t1 Type)\<close>\<close>

definition SetInstance :: "nat \<Rightarrow> ty \<Rightarrow> heap \<Rightarrow> heap" where
  "SetInstance p t1 h = h(p := (h p)\<lparr>Instance := Some t1\<rparr>)"

text \<open>
  \<^verbatim>\<open>Root\<close>: an operator and a type error return themselves; a variable with no instance
  returns itself; a bound variable asks its instance for the root and then stores the
  answer in its own \<^verbatim>\<open>Instance\<close> field. The budget bounds the depth of the recursion
  along the chain of instances.
\<close>

fun Root :: "nat \<Rightarrow> ty \<Rightarrow> ty M" where
  "Root n (Operator nm args) h = Inr (Operator nm args, h)"
| "Root n (TypeError k ex rc) h = Inr (TypeError k ex rc, h)"
| "Root n (Variable p) h =
     (case Instance (h p) of
        None \<Rightarrow> Inr (Variable p, h)
      | Some i \<Rightarrow>
          (case n of
             0 \<Rightarrow> Inl OutOfFuel
           | Suc m \<Rightarrow>
               (case Root m i h of
                  Inl e \<Rightarrow> Inl e
                | Inr (r, h') \<Rightarrow> Inr (r, SetInstance p r h'))))"

text \<open>Builtin type constants.\<close>

definition Undef_t :: ty where "Undef_t = Operator ''Undef'' []"
definition None_t :: ty where "None_t = Operator ''None'' []"
definition Bool_t :: ty where "Bool_t = Operator ''Bool'' []"
definition Int_t :: ty where "Int_t = Operator ''Int'' []"
definition Float_t :: ty where "Float_t = Operator ''Float'' []"
definition String_t :: ty where "String_t = Operator ''String'' []"
definition Pattern_t :: ty where "Pattern_t = Operator ''Pattern'' []"
definition Buckets_t :: ty where "Buckets_t = Operator ''Buckets'' []"

text \<open>
  \<^verbatim>\<open>Equals\<close>, \<^verbatim>\<open>occursInType\<close> and \<^verbatim>\<open>occursIn\<close> call one another. The loop of \<^verbatim>\<open>Equals\<close>
  over the arguments of two operators compares \<^verbatim>\<open>t1.Args[i]\<close> with \<^verbatim>\<open>t2.Args[2]\<close>, as
  the source has it: with fewer than three arguments the index is out of range.
\<close>

function Equals :: "nat \<Rightarrow> ty \<Rightarrow> ty \<Rightarrow> bool M"
  and EqualsArgs :: "nat \<Rightarrow> ty list \<Rightarrow> ty list \<Rightarrow> bool M"
  and occursInType :: "nat \<Rightarrow> ty \<Rightarrow> ty \<Rightarrow> bool M"
  and occursIn :: "nat \<Rightarrow> ty \<Rightarrow> ty list \<Rightarrow> bool M"
where
  "Equals 0 t1 t2 = fail OutOfFuel"
| "Equals (Suc n) t1 t2 =
     seq (Root n t1) (\<lambda>r1. seq (Root n t2) (\<lambda>r2.
       (case r1 of
          Variable p \<Rightarrow>
            (case r2 of
               Variable q \<Rightarrow> (\<lambda>h. Inr (ID (h p) = ID (h q), h))
             | _ \<Rightarrow> occursInType n r1 r2)
        | Operator nm1 args1 \<Rightarrow>
            (case r2 of
               Operator nm2 args2 \<Rightarrow>
                 if nm1 \<noteq> nm2 then ret False
                 else if length args1 \<noteq> length args2 then ret False
                 else EqualsArgs n args1 args2
             | _ \<Rightarrow> ret False)
        | TypeError k ex rc \<Rightarrow> ret False)))"
| "EqualsArgs n [] args2 = ret True"
| "EqualsArgs n (x # xs) args2 =
     (if length args2 \<le> 2 then fail IndexOutOfRange
      else seq (Equals n x (args2 ! 2)) (\<lambda>eq.
        if \<not> eq then ret False else EqualsArgs n xs args2))"
| "occursInType 0 v t2 = fail OutOfFuel"
| "occursInType (Suc n) v t2 =
     seq (Root n t2) (\<lambda>root. seq (Equals n root v) (\<lambda>eq.
       if eq then ret True
       else (case root of
               Operator nm args \<Rightarrow> occursIn n v args
             | _ \<Rightarrow> ret False)))"
| "occursIn n v [] = ret False"
| "occursIn n v (t2 # ts) =
     seq (occursInType n v t2) (\<lambda>occ.
       if occ then ret True else occursIn n v ts)"
  by pat_completeness auto
termination
  by (relation "inv_image (less_than <*lex*> less_than) (\<lambda>x. case x of
        Inl (Inl (n, t1, t2)) \<Rightarrow> (n, 0)
      | Inl (Inr (n, xs, ys)) \<Rightarrow> (n, Suc (length xs))
      | Inr (Inl (n, v, t2)) \<Rightarrow> (n, 0)
      | Inr (Inr (n, v, ts)) \<Rightarrow> (n, Suc (length ts)))") auto

text \<open>
  \<^verbatim>\<open>LeastUpperBound\<close>: the two roots are taken first; every later test is a call of
  \<^verbatim>\<open>Equals\<close> against a builtin constant, in the order of the source. The error it
  returns at the end holds the two parameters, not their roots.
\<close>

definition isVariable :: "ty \<Rightarrow> bool" where
  "isVariable t = (case t of Variable p \<Rightarrow> True | _ \<Rightarrow> False)"

definition LeastUpperBound :: "nat \<Rightarrow> ty \<Rightarrow> ty \<Rightarrow> ty M" where
  "LeastUpperBound n a b =
     seq (Root n a) (\<lambda>a1. seq (Root n b) (\<lambda>b1.
     seq (Equals n a1 b1) (\<lambda>eq.
       if eq then ret a1
       else if isVariable a1 then ret b1
       else if isVariable b1 then ret a1
       else seq (Equals n a1 Undef_t) (\<lambda>c1.
       if c1 then ret b1
       else seq (Equals n b1 Undef_t) (\<lambda>c2.
       if c2 then ret a1
       else seq (orM (andM (Equals n a1 Float_t) (Equals n b1 Int_t))
                     (andM (Equals n b1 Float_t) (Equals n a1 Int_t))) (\<lambda>c3.
       if c3 then ret Float_t
       else seq (orM (andM (Equals n a1 String_t) (Equals n b1 Int_t))
                (orM (andM (Equals n b1 String_t) (Equals n a1 Int_t))
                (orM (andM (Equals n a1 String_t) (Equals n b1 Float_t))
                     (andM (Equals n b1 String_t) (Equals n a1 Float_t))))) (\<lambda>c4.
       if c4 then ret String_t
       else seq (orM (andM (Equals n a1 Pattern_t) (Equals n b1 Bool_t))
                     (andM (Equals n a1 Bool_t) (Equals n b1 Pattern_t))) (\<lambda>c5.
       if c5 then ret Bool_t
       else seq (orM (andM (Equals n a1 Bool_t) (Equals n b1 Int_t))
                     (andM (Equals n a1 Int_t) (Equals n b1 Bool_t))) (\<lambda>c6.
       if c6 then ret Int_t
       else seq (orM (andM (Equals n a1 String_t) (Equals n b1 Pattern_t))
                     (andM (Equals n a1 Pattern_t) (Equals n b1 String_t))) (\<lambda>c7.
       if c7 then ret Pattern_t
       else seq (orM (andM (Equals n a1 Pattern_t) (Equals n b1 Int_t))
                     (andM (Equals n a1 Int_t) (Equals n b1 Pattern_t))) (\<lambda>c8.
       if c8 then ret Bool_t
       else ret (TypeError (Some ErrTypeMismatch) (Some a) (Some b)))))))))))))"

text \<open>
  \<^verbatim>\<open>Unify\<close>. The loop over the arguments is \<open>UnifyArgs\<close>: it returns the first type
  error an argument produces (\<open>Inl\<close>) or the list of unified arguments (\<open>Inr\<close>). The
  operator the arguments are stored into is the one \<^verbatim>\<open>LeastUpperBound\<close> returned when the
  names differ and a new operator of the common name otherwise; its \<^verbatim>\<open>Args\<close> are
  replaced by a new slice before the loop, so only its name is kept. Where no case of
  the two type switches applies the function falls through to the internal error.
\<close>

fun Unify :: "nat \<Rightarrow> ty \<Rightarrow> ty \<Rightarrow> ty M"
  and UnifyArgs :: "nat \<Rightarrow> ty list \<Rightarrow> ty list \<Rightarrow> (ty + ty list) M"
where
  "Unify 0 a b = fail OutOfFuel"
| "Unify (Suc n) a b =
     seq (Root n a) (\<lambda>a1. seq (Root n b) (\<lambda>b1.
       (case a1 of
          Variable p \<Rightarrow>
            (case b1 of
               Variable q \<Rightarrow>
                 (\<lambda>h. if ID (h p) \<noteq> ID (h q) then Inr (b1, SetInstance p b1 h)
                      else Inr (a1, h))
             | Operator nmb argsb \<Rightarrow>
                 seq (occursInType n a1 b1) (\<lambda>occ.
                   if occ then ret (TypeError (Some ErrRecursiveUnification) (Some a1) (Some b1))
                   else (\<lambda>h. Inr (b1, SetInstance p b1 h)))
             | TypeError k ex rc \<Rightarrow> ret (TypeError (Some ErrInternal) (Some a) (Some b)))
        | Operator nma argsa \<Rightarrow>
            (case b1 of
               Variable q \<Rightarrow>
                 seq (Unify n b a) (\<lambda>t.
                   (case t of
                      TypeError k ex rc \<Rightarrow> ret (TypeError (Some ErrTypeMismatch) rc ex)
                    | _ \<Rightarrow> ret t))
             | Operator nmb argsb \<Rightarrow>
                 if length argsa \<noteq> length argsb
                 then ret (TypeError (Some ErrTypeMismatch) (Some a1) (Some b1))
                 else
                   seq (if nma \<noteq> nmb
                        then seq (LeastUpperBound n a b) (\<lambda>t.
                          (case t of
                             TypeError k ex rc \<Rightarrow> ret (Inl t)
                           | Operator nm args \<Rightarrow> ret (Inr nm)
                           | Variable r \<Rightarrow>
                               ret (Inl (TypeError (Some ErrInternal) (Some a1) (Some b1)))))
                        else ret (Inr nma)) (\<lambda>rType.
                     (case rType of
                        Inl e \<Rightarrow> ret e
                      | Inr nm \<Rightarrow>
                          seq (UnifyArgs n argsa argsb) (\<lambda>r.
                            (case r of
                               Inl e \<Rightarrow> ret e
                             | Inr ts \<Rightarrow> ret (Operator nm ts)))))
             | TypeError k ex rc \<Rightarrow> ret (TypeError (Some ErrInternal) (Some a) (Some b)))
        | TypeError k ex rc \<Rightarrow> ret (TypeError (Some ErrInternal) (Some a) (Some b)))))"
| "UnifyArgs n [] ys = ret (Inr [])"
| "UnifyArgs n (x # xs) [] = fail IndexOutOfRange"
| "UnifyArgs n (x # xs) (y # ys) =
     seq (Unify n x y) (\<lambda>t.
       (case t of
          TypeError k ex rc \<Rightarrow> ret (Inl t)
        | _ \<Rightarrow>
            seq (UnifyArgs n xs ys) (\<lambda>r.
              (case r of
                 Inl e \<Rightarrow> ret (Inl e)
               | Inr ts \<Rightarrow> ret (Inr (t # ts))))))"

subsection \<open>Chains of instances\<close>

text \<open>
  \<open>resolves h t r\<close>: following the \<^verbatim>\<open>Instance\<close> fields from \<open>t\<close> in the heap \<open>h\<close> ends
  at \<open>r\<close>, which is an operator, a type error or a variable with no instance. There is
  no such \<open>r\<close> when the chain runs in a circle.
\<close>

inductive resolves :: "heap \<Rightarrow> ty \<Rightarrow> ty \<Rightarrow> bool" for h :: heap where
  res_Operator: "resolves h (Operator nm args) (Operator nm args)"
| res_TypeError: "resolves h (TypeError k ex rc) (TypeError k ex rc)"
| res_unbound: "Instance (h p) = None \<Longrightarrow> resolves h (Variable p) (Variable p)"
| res_bound: "Instance (h p) = Some i \<Longrightarrow> resolves h i r \<Longrightarrow> resolves h (Variable p) r"

text \<open>The variables whose cells a call of \<^verbatim>\<open>Root\<close> on \<open>t\<close> passes through.\<close>

inductive on_chain :: "heap \<Rightarrow> ty \<Rightarrow> nat \<Rightarrow> bool" for h :: heap where
  chain_here: "Instance (h p) = Some i \<Longrightarrow> on_chain h (Variable p) p"
| chain_next: "Instance (h p) = Some i \<Longrightarrow> on_chain h i q \<Longrightarrow> on_chain h (Variable p) q"

text \<open>
  \<open>compressed h h'\<close>: the heap \<open>h'\<close> is \<open>h\<close> after some path compression. No \<^verbatim>\<open>ID\<close> has
  changed, and a cell either is as it was or was bound and now holds the end of its chain.
\<close>

definition compressed :: "heap \<Rightarrow> heap \<Rightarrow> bool" where
  "compressed h h' =
     (\<forall>p. h' p = h p \<or>
          (\<exists>r. Instance (h p) \<noteq> None \<and> resolves h (Variable p) r \<and>
               h' p = (h p)\<lparr>Instance := Some r\<rparr>))"

text \<open>\<open>is_root h r\<close>: \<open>r\<close> is the end of a chain, that is, not a bound variable.\<close>

definition is_root :: "heap \<Rightarrow> ty \<Rightarrow> bool" where
  "is_root h r = (case r of Variable p \<Rightarrow> Instance (h p) = None | _ \<Rightarrow> True)"

text \<open>An example heap: cell 0 is bound to cell 1, cell 1 to cell 2, every other cell is unbound.\<close>

definition chain3 :: heap where
  "chain3 = (\<lambda>q. \<lparr>ID = int q,
      Instance = (if q = 0 then Some (Variable 1) else if q = 1 then Some (Variable 2) else None)\<rparr>)"

section \<open>Types of capture groups\<close>

subsection \<open>Regular expression syntax trees\<close>

text \<open>
  \<^verbatim>\<open>syntax.Regexp\<close> of Go's \<^verbatim>\<open>regexp/syntax\<close>: one node type for every operator, with
  the fields \<^verbatim>\<open>Op\<close>, \<^verbatim>\<open>Flags\<close>, \<^verbatim>\<open>Sub\<close>, \<^verbatim>\<open>Rune\<close>, \<^verbatim>\<open>Min\<close>, \<^verbatim>\<open>Max\<close>, \<^verbatim>\<open>Cap\<close> and
  \<^verbatim>\<open>Name\<close>. A rune is a number. The type does not force a capture or a repetition to
  have a subexpression, nor a character class to have an even number of runes, so the
  functions below panic where the source reads \<^verbatim>\<open>Sub[0]\<close> or \<^verbatim>\<open>Rune[i+1]\<close> out of range.
\<close>

datatype Op =
    OpNoMatch | OpEmptyMatch | OpLiteral | OpCharClass | OpAnyCharNotNL | OpAnyChar
  | OpBeginLine | OpEndLine | OpBeginText | OpEndText | OpWordBoundary | OpNoWordBoundary
  | OpCapture | OpStar | OpPlus | OpQuest | OpRepeat | OpConcat | OpAlternate

datatype Regexp =
  Regexp (Op: Op) (Flags: nat) (Sub: "Regexp list") (Rune: "int list")
         (Min_r: int) (Max_r: int) (Cap: int) (Name: string)

text \<open>\<^verbatim>\<open>strings.ContainsRune\<close>, \<^verbatim>\<open>strings.ContainsAny\<close> and \<^verbatim>\<open>strings.Count\<close> (of a
  one-byte substring) on ASCII strings.\<close>

definition ContainsRune :: "string \<Rightarrow> int \<Rightarrow> bool" where
  "ContainsRune s r = (\<exists>c\<in>set s. of_char c = r)"

definition ContainsAny :: "string \<Rightarrow> string \<Rightarrow> bool" where
  "ContainsAny s chars = (\<exists>c\<in>set s. c \<in> set chars)"

definition Count :: "string \<Rightarrow> char \<Rightarrow> nat" where
  "Count s c = length (filter (\<lambda>x. x = c) s)"

text \<open>
  \<^verbatim>\<open>getCaptureGroup\<close>: the node under the first capture numbered \<open>cgID\<close> in a preorder
  walk, \<^verbatim>\<open>nil\<close> (\<open>None\<close>) when there is none.
\<close>

fun getCaptureGroup :: "Regexp \<Rightarrow> int \<Rightarrow> failure + Regexp option"
  and getCaptureGroup_subs :: "Regexp list \<Rightarrow> int \<Rightarrow> failure + Regexp option"
where
  "getCaptureGroup (Regexp op fl sub rn mn mx cp nm) cgID =
     (if op = OpCapture \<and> cp = cgID
      then (case sub of [] \<Rightarrow> Inl IndexOutOfRange | g # gs \<Rightarrow> Inr (Some g))
      else getCaptureGroup_subs sub cgID)"
| "getCaptureGroup_subs [] cgID = Inr None"
| "getCaptureGroup_subs (g # gs) cgID =
     (case getCaptureGroup g cgID of
        Inl e \<Rightarrow> Inl e
      | Inr (Some r) \<Rightarrow> Inr (Some r)
      | Inr None \<Rightarrow> getCaptureGroup_subs gs cgID)"

text \<open>
  \<^verbatim>\<open>groupOnlyMatches\<close>. The inner loop \<^verbatim>\<open>for r := lo; r <= hi; r++\<close> over a range of a
  character class is \<open>rangeOnlyMatches\<close>; it stops at the first rune that is not in
  \<open>s\<close>, which for the ASCII strings it is called with happens before a 32-bit rune
  could wrap around.
\<close>

function rangeOnlyMatches :: "int \<Rightarrow> int \<Rightarrow> string \<Rightarrow> bool" where
  "rangeOnlyMatches r hi s =
     (if r \<le> hi then (if \<not> ContainsRune s r then False else rangeOnlyMatches (r + 1) hi s)
      else True)"
  by pat_completeness auto
termination
  by (relation "measure (\<lambda>(r, hi, s). nat (hi + 1 - r))") auto

declare rangeOnlyMatches.simps [simp del]

fun classOnlyMatches :: "int list \<Rightarrow> string \<Rightarrow> failure + bool" where
  "classOnlyMatches [] s = Inr True"
| "classOnlyMatches [lo] s = Inl IndexOutOfRange"
| "classOnlyMatches (lo # hi # rest) s =
     (if \<not> rangeOnlyMatches lo hi s then Inr False else classOnlyMatches rest s)"

fun groupOnlyMatches :: "Regexp \<Rightarrow> string \<Rightarrow> failure + bool"
  and subsOnlyMatch :: "Regexp list \<Rightarrow> string \<Rightarrow> failure + bool"
where
  "groupOnlyMatches (Regexp op fl sub rn mn mx cp nm) s =
     (if op = OpLiteral then Inr (\<forall>r\<in>set rn. ContainsRune s r)
      else if op = OpCharClass then classOnlyMatches rn s
      else if op = OpStar \<or> op = OpPlus \<or> op = OpRepeat \<or> op = OpQuest \<or> op = OpCapture
      then (case sub of [] \<Rightarrow> Inl IndexOutOfRange | g # gs \<Rightarrow> groupOnlyMatches g s)
      else if op = OpConcat \<or> op = OpAlternate then subsOnlyMatch sub s
      else Inr False)"
| "subsOnlyMatch [] s = Inr True"
| "subsOnlyMatch (g # gs) s =
     (case groupOnlyMatches g s of
        Inl e \<Rightarrow> Inl e
      | Inr b \<Rightarrow> if \<not> b then Inr False else subsOnlyMatch gs s)"

text \<open>
  \<^verbatim>\<open>inferGroupType\<close> and \<^verbatim>\<open>InferCaprefType\<close>. \<^verbatim>\<open>group.String()\<close> is the printer of the Go
  standard library; the functions take it as the parameter \<open>str\<close>, so that what is
  proved of them holds for every printer. \<open>inferAlternate\<close> is the loop over the
  branches of an alternation.
\<close>

definition inferGroupType :: "(Regexp \<Rightarrow> string) \<Rightarrow> Regexp \<Rightarrow> failure + ty" where
  "inferGroupType str grp =
     (case groupOnlyMatches grp ''+-'' of
        Inl e \<Rightarrow> Inl e
      | Inr True \<Rightarrow> Inr String_t
      | Inr False \<Rightarrow>
          (case groupOnlyMatches grp ''+-0123456789'' of
             Inl e \<Rightarrow> Inl e
           | Inr True \<Rightarrow>
               if \<not> ContainsAny (str grp) ''0123456789'' then Inr String_t
               else if Op grp = OpAlternate \<or> Op grp = OpCharClass then Inr String_t
               else Inr Int_t
           | Inr False \<Rightarrow>
               (case groupOnlyMatches grp ''+-0123456789.eE'' of
                  Inl e \<Rightarrow> Inl e
                | Inr True \<Rightarrow>
                    if Count (str grp) (CHR ''.'') > 1 then Inr String_t else Inr Float_t
                | Inr False \<Rightarrow> Inr String_t)))"

fun inferAlternate :: "(Regexp \<Rightarrow> string) \<Rightarrow> nat \<Rightarrow> Regexp list \<Rightarrow> ty \<Rightarrow> ty M" where
  "inferAlternate str n [] subType = ret subType"
| "inferAlternate str n (sub # subs) subType =
     (case inferGroupType str sub of
        Inl e \<Rightarrow> fail e
      | Inr t \<Rightarrow> seq (LeastUpperBound n subType t) (inferAlternate str n subs))"

definition InferCaprefType :: "(Regexp \<Rightarrow> string) \<Rightarrow> nat \<Rightarrow> Regexp \<Rightarrow> int \<Rightarrow> ty M" where
  "InferCaprefType str n re cg =
     (case getCaptureGroup re cg of
        Inl e \<Rightarrow> fail e
      | Inr None \<Rightarrow> ret None_t
      | Inr (Some grp) \<Rightarrow>
          if Op grp \<noteq> OpAlternate
          then (case inferGroupType str grp of Inl e \<Rightarrow> fail e | Inr t \<Rightarrow> ret t)
          else inferAlternate str n (Sub grp) Undef_t)"

text \<open>\<open>has_capture re n\<close>: some node of \<open>re\<close> is a capture numbered \<open>n\<close>.\<close>

fun has_capture :: "Regexp \<Rightarrow> int \<Rightarrow> bool" where
  "has_capture (Regexp op fl sub rn mn mx cp nm) n =
     ((op = OpCapture \<and> cp = n) \<or> (\<exists>g\<in>set sub. has_capture g n))"

subsection \<open>The printer and the matcher of the regular expression library\<close>

text \<open>
  Neither is code of this repository. \<open>Regexp_String\<close> follows \<^verbatim>\<open>(*Regexp).String\<close> of
  \<^verbatim>\<open>regexp/syntax\<close> on trees with no flag set; it is used only to evaluate the functions
  above on examples. A rune outside printable ASCII is written in hexadecimal, which the
  library does for the unprintable ones only.
\<close>

definition backslash :: char where
  "backslash = CHR 0x5C"

definition meta :: string where
  "meta = backslash # ''.+*?()|[]{}^$''"

function natstr :: "nat \<Rightarrow> nat \<Rightarrow> string" where
  "natstr b n =
     (if n < b \<or> b < 2 then [''0123456789abcdef'' ! n]
      else natstr b (n div b) @ [''0123456789abcdef'' ! (n mod b)])"
  by pat_completeness auto
termination
  by (relation "measure (\<lambda>(b, n). n)") auto

declare natstr.simps [simp del]

definition itoa :: "int \<Rightarrow> string" where
  "itoa i = (if i < 0 then ''-'' @ natstr 10 (nat (- i)) else natstr 10 (nat i))"

definition escape :: "int \<Rightarrow> bool \<Rightarrow> string" where
  "escape r force =
     (if 0x20 \<le> r \<and> r \<le> 0x7E
      then (if ContainsRune meta r \<or> force then [backslash] else []) @ [char_of r]
      else if r = 7 then [backslash, CHR ''a'']
      else if r = 12 then [backslash, CHR ''f'']
      else if r = 10 then [backslash, CHR ''n'']
      else if r = 13 then [backslash, CHR ''r'']
      else if r = 9 then [backslash, CHR ''t'']
      else if r = 11 then [backslash, CHR ''v'']
      else if r < 0x10 then backslash # ''x0'' @ natstr 16 (nat r)
      else if r < 0x100 then backslash # ''x'' @ natstr 16 (nat r)
      else backslash # ''x{'' @ natstr 16 (nat r) @ ''}'')"

fun class_ranges :: "int list \<Rightarrow> string" where
  "class_ranges (lo # hi # rest) =
     escape lo (lo = 45) @ (if lo \<noteq> hi then ''-'' @ escape hi (hi = 45) else []) @
     class_ranges rest"
| "class_ranges rest = []"

fun class_gaps :: "int list \<Rightarrow> string" where
  "class_gaps (a # b # rest) =
     (if rest = [] then []
      else escape (a + 1) (a + 1 = 45) @
           (if a + 1 \<noteq> b - 1 then ''-'' @ escape (b - 1) (b - 1 = 45) else []) @
           class_gaps rest)"
| "class_gaps rest = []"

fun Regexp_String :: "Regexp \<Rightarrow> string" where
  "Regexp_String (Regexp op fl sub rn mn mx cp nm) =
     (case op of
        OpNoMatch \<Rightarrow> ''[^'' @ backslash # ''x00-'' @ backslash # ''x{10FFFF}]''
      | OpEmptyMatch \<Rightarrow> ''(?:)''
      | OpLiteral \<Rightarrow> concat (map (\<lambda>r. escape r False) rn)
      | OpCharClass \<Rightarrow>
          if odd (length rn) then ''[invalid char class]''
          else ''['' @
            (if rn = [] then ''^'' @ backslash # ''x00-'' @ backslash # ''x{10FFFF}''
             else if hd rn = 0 \<and> last rn = 0x10FFFF \<and> length rn > 2
             then ''^'' @ class_gaps (tl rn)
             else class_ranges rn) @ '']''
      | OpAnyCharNotNL \<Rightarrow> ''(?-s:.)''
      | OpAnyChar \<Rightarrow> ''(?s:.)''
      | OpBeginLine \<Rightarrow> ''(?m:^)''
      | OpEndLine \<Rightarrow> ''(?m:$)''
      | OpBeginText \<Rightarrow> backslash # ''A''
      | OpEndText \<Rightarrow> backslash # ''z''
      | OpWordBoundary \<Rightarrow> backslash # ''b''
      | OpNoWordBoundary \<Rightarrow> backslash # ''B''
      | OpCapture \<Rightarrow>
          (if nm \<noteq> [] then ''(?P<'' @ nm @ ''>'' else ''('') @
          (case sub of
             [] \<Rightarrow> []
           | g # gs \<Rightarrow> if Op g \<noteq> OpEmptyMatch then Regexp_String g else []) @ '')''
      | OpConcat \<Rightarrow>
          concat (map (\<lambda>g. if Op g = OpAlternate then ''(?:'' @ Regexp_String g @ '')''
                            else Regexp_String g) sub)
      | OpAlternate \<Rightarrow>
          (case sub of
             [] \<Rightarrow> []
           | g # gs \<Rightarrow> Regexp_String g @ concat (map (\<lambda>g. ''|'' @ Regexp_String g) gs))
      | _ \<Rightarrow>
          (case sub of
             [] \<Rightarrow> []
           | g # gs \<Rightarrow>
               (if Op g \<in> {OpStar, OpPlus, OpQuest, OpRepeat, OpConcat, OpAlternate} \<or>
                   (Op g = OpLiteral \<and> length (Rune g) > 1)
                then ''(?:'' @ Regexp_String g @ '')'' else Regexp_String g) @
               (if op = OpStar then ''*'' else if op = OpPlus then ''+''
                else if op = OpQuest then ''?''
                else ''{'' @ itoa mn @
                     (if mx \<noteq> mn then '','' @ (if mx \<ge> 0 then itoa mx else []) else []) @
                     ''}'')))"

text \<open>
  \<open>matches g s\<close>: the expression \<open>g\<close>, with no flag set, matches exactly the string of
  runes \<open>s\<close>. The assertions that consume nothing (line, text and word boundaries) match
  the empty string; \<open>matches_seq\<close> is a concatenation and \<open>matches_rep g k\<close> is \<open>k\<close>
  repetitions of \<open>g\<close>.
\<close>

fun in_class :: "int list \<Rightarrow> int \<Rightarrow> bool" where
  "in_class (lo # hi # rest) r = ((lo \<le> r \<and> r \<le> hi) \<or> in_class rest r)"
| "in_class rest r = False"

inductive matches :: "Regexp \<Rightarrow> int list \<Rightarrow> bool"
  and matches_seq :: "Regexp list \<Rightarrow> int list \<Rightarrow> bool"
  and matches_rep :: "Regexp \<Rightarrow> nat \<Rightarrow> int list \<Rightarrow> bool"
where
  m_EmptyMatch: "matches (Regexp OpEmptyMatch fl sub rn mn mx cp nm) []"
| m_Literal: "matches (Regexp OpLiteral fl sub rn mn mx cp nm) rn"
| m_CharClass: "in_class rn r \<Longrightarrow> matches (Regexp OpCharClass fl sub rn mn mx cp nm) [r]"
| m_AnyCharNotNL: "r \<noteq> 10 \<Longrightarrow> matches (Regexp OpAnyCharNotNL fl sub rn mn mx cp nm) [r]"
| m_AnyChar: "matches (Regexp OpAnyChar fl sub rn mn mx cp nm) [r]"
| m_assertion:
    "op \<in> {OpBeginLine, OpEndLine, OpBeginText, OpEndText, OpWordBoundary, OpNoWordBoundary}
     \<Longrightarrow> matches (Regexp op fl sub rn mn mx cp nm) []"
| m_Capture: "matches g s \<Longrightarrow> matches (Regexp OpCapture fl (g # gs) rn mn mx cp nm) s"
| m_Star: "matches_rep g k s \<Longrightarrow> matches (Regexp OpStar fl (g # gs) rn mn mx cp nm) s"
| m_Plus:
    "matches_rep g k s \<Longrightarrow> 0 < k \<Longrightarrow> matches (Regexp OpPlus fl (g # gs) rn mn mx cp nm) s"
| m_Quest:
    "matches_rep g k s \<Longrightarrow> k \<le> 1 \<Longrightarrow> matches (Regexp OpQuest fl (g # gs) rn mn mx cp nm) s"
| m_Repeat:
    "matches_rep g k s \<Longrightarrow> mn \<le> int k \<Longrightarrow> mx = - 1 \<or> int k \<le> mx
     \<Longrightarrow> matches (Regexp OpRepeat fl (g # gs) rn mn mx cp nm) s"
| m_Concat: "matches_seq gs s \<Longrightarrow> matches (Regexp OpConcat fl gs rn mn mx cp nm) s"
| m_Alternate:
    "matches g s \<Longrightarrow> g \<in> set gs \<Longrightarrow> matches (Regexp OpAlternate fl gs rn mn mx cp nm) s"
| seq_Nil: "matches_seq [] []"
| seq_Cons: "matches g s \<Longrightarrow> matches_seq gs t \<Longrightarrow> matches_seq (g # gs) (s @ t)"
| rep_0: "matches_rep g 0 []"
| rep_Suc: "matches g s \<Longrightarrow> matches_rep g k t \<Longrightarrow> matches_rep g (Suc k) (s @ t)"

text \<open>
  What it is for a string to parse as a base-10 integer, after \<^verbatim>\<open>strconv.ParseInt\<close>: an
  optional sign and then at least one digit (the 64-bit range is not modelled; it only
  rejects more strings).
\<close>

definition parses_int :: "int list \<Rightarrow> bool" where
  "parses_int s =
     (let d = (case s of [] \<Rightarrow> [] | r # rest \<Rightarrow> if r = 43 \<or> r = 45 then rest else s)
      in d \<noteq> [] \<and> (\<forall>r\<in>set d. 48 \<le> r \<and> r \<le> 57))"

text \<open>Syntax trees for examples.\<close>

definition lit :: "string \<Rightarrow> Regexp" where
  "lit s = Regexp OpLiteral 0 [] (map of_char s) 0 0 0 []"

definition char_class :: "int list \<Rightarrow> Regexp" where
  "char_class rs = Regexp OpCharClass 0 [] rs 0 0 0 []"

definition capture :: "int \<Rightarrow> Regexp \<Rightarrow> Regexp" where
  "capture n g = Regexp OpCapture 0 [g] [] 0 0 n []"


definition concat_re :: "Regexp list \<Rightarrow> Regexp" where
  "concat_re gs = Regexp OpConcat 0 gs [] 0 0 0 []"

definition plus_re :: "Regexp \<Rightarrow> Regexp" where
  "plus_re g = Regexp OpPlus 0 [g] [] 0 0 0 []"

text \<open>The heap in which every variable is unbound and cell \<open>p\<close> has the identifier \<open>p\<close>.\<close>

definition fresh :: heap where
  "fresh = (\<lambda>p. \<lparr>ID = int p, Instance = None\<rparr>)"

subsection \<open>The widening table, as the specification words it\<close>

text \<open>
  \<open>atomic t\<close>: \<open>t\<close> is a variable, a type error or an operator with no argument.
  \<open>same_root h x y\<close> is what \<^verbatim>\<open>Equals\<close> answers on two such roots: two variables are
  equal when their \<^verbatim>\<open>ID\<close>s are, two operators when their names are, and a type error
  equals nothing.
\<close>

definition atomic :: "ty \<Rightarrow> bool" where
  "atomic t = (case t of Operator nm args \<Rightarrow> args = [] | _ \<Rightarrow> True)"

definition same_root :: "heap \<Rightarrow> ty \<Rightarrow> ty \<Rightarrow> bool" where
  "same_root h x y =
     (case x of
        Variable p \<Rightarrow> (case y of Variable q \<Rightarrow> ID (h p) = ID (h q) | _ \<Rightarrow> False)
      | Operator nm1 args1 \<Rightarrow> (case y of Operator nm2 args2 \<Rightarrow> nm1 = nm2 | _ \<Rightarrow> False)
      | TypeError k ex rc \<Rightarrow> False)"

text \<open>
  The table of the specification on the roots \<open>a1\<close> of \<open>a\<close> and \<open>b1\<close> of \<open>b\<close>, with
  its rules in the order in which they apply: equal roots first, then a variable on
  either side, then \<^verbatim>\<open>Undef\<close>, then the widenings, and the mismatch of \<open>a\<close> and \<open>b\<close>
  otherwise.
\<close>

definition lub_table :: "heap \<Rightarrow> ty \<Rightarrow> ty \<Rightarrow> ty \<Rightarrow> ty \<Rightarrow> ty" where
  "lub_table h a b a1 b1 =
     (if same_root h a1 b1 then a1
      else if isVariable a1 then b1
      else if isVariable b1 then a1
      else if a1 = Undef_t then b1
      else if b1 = Undef_t then a1
      else if {a1, b1} = {Int_t, Float_t} then Float_t
      else if {a1, b1} = {Int_t, String_t} \<or> {a1, b1} = {Float_t, String_t} then String_t
      else if {a1, b1} = {Pattern_t, Bool_t} then Bool_t
      else if {a1, b1} = {Int_t, Bool_t} then Int_t
      else if {a1, b1} = {String_t, Pattern_t} then Pattern_t
      else if {a1, b1} = {Int_t, Pattern_t} then Bool_t
      else TypeError (Some ErrTypeMismatch) (Some a) (Some b))"

text \<open>The heap \<open>fresh\<close> with cell 0 bound to \<^verbatim>\<open>Int\<close>.\<close>

definition bound_int :: heap where
  "bound_int = fresh(0 := \<lparr>ID = 0, Instance = Some Int_t\<rparr>)"

subsection \<open>The inference rules, as the specification words them\<close>

text \<open>
  \<open>well_formed g\<close>: what the parser of the library guarantees of a tree: a character
  class has an even number of runes, and a capture or a repetition has a subexpression.
\<close>

fun well_formed :: "Regexp \<Rightarrow> bool" where
  "well_formed (Regexp op fl sub rn mn mx cp nm) =
     ((op = OpCharClass \<longrightarrow> even (length rn)) \<and>
      (op \<in> {OpCapture, OpStar, OpPlus, OpQuest, OpRepeat} \<longrightarrow> sub \<noteq> []) \<and>
      (\<forall>g\<in>set sub. well_formed g))"

text \<open>
  The rules for one group, in the order in which they apply. A group that matches only
  signs is a \<^verbatim>\<open>String\<close>; a group that matches only signs and digits is an \<^verbatim>\<open>Int\<close> when
  its printed source has a digit and it is neither an alternation nor a character class;
  a group that matches only the characters of a float is a \<^verbatim>\<open>Float\<close> when its printed
  source has at most one dot; everything else is a \<^verbatim>\<open>String\<close>.
\<close>

definition infer_rule :: "(Regexp \<Rightarrow> string) \<Rightarrow> Regexp \<Rightarrow> ty" where
  "infer_rule str g =
     (if groupOnlyMatches g ''+-'' = Inr True then String_t
      else if groupOnlyMatches g ''+-0123456789'' = Inr True
      then (if ContainsAny (str g) ''0123456789'' \<and> Op g \<noteq> OpAlternate \<and> Op g \<noteq> OpCharClass
            then Int_t else String_t)
      else if groupOnlyMatches g ''+-0123456789.eE'' = Inr True
      then (if Count (str g) (CHR ''.'') \<le> 1 then Float_t else String_t)
      else String_t)"

text \<open>The least upper bound of the types of the branches of an alternation.\<close>

definition lub_types :: "ty list \<Rightarrow> ty" where
  "lub_types ts =
     (if String_t \<in> set ts then String_t
      else if Float_t \<in> set ts then Float_t
      else if Int_t \<in> set ts then Int_t
      else Undef_t)"

text \<open>One step of the loop over the branches: the join of the type \<open>t\<close> of a branch with
  the type \<open>acc\<close> of the branches before it.\<close>

definition join2 :: "ty \<Rightarrow> ty \<Rightarrow> ty" where
  "join2 t acc =
     (if acc = Undef_t then t
      else if acc = String_t \<or> t = String_t then String_t
      else if acc = Float_t \<or> t = Float_t then Float_t
      else Int_t)"

section \<open>The expression grammar of the parser (parser.y)\<close>

text \<open>
  The tokens of the grammar, with the payload the lexer gives them. The token \<^verbatim>\<open>ID\<close> is
  \<open>ID_tok\<close> here. Source positions are not modelled.
\<close>

typedecl float64

datatype token =
    INVALID string
  | COUNTER | GAUGE | TIMER | TEXT | HISTOGRAM
  | AFTER | AS | BY | CONST | HIDDEN | DEF | DEL | NEXT | OTHERWISE | ELSE | STOP | BUCKETS
  | BUILTIN string
  | REGEX string | STRING string | CAPREF string | CAPREF_NAMED string
  | ID_tok string | DECO string
  | INTLITERAL int | FLOATLITERAL float64 | DURATIONLITERAL int
  | INC | DEC
  | DIV | MOD | MUL | MINUS | PLUS | POW
  | SHL | SHR
  | LT | GT | LE | GE | EQ | NE
  | BITAND | XOR | BITOR | NOT | AND | OR
  | ADD_ASSIGN | ASSIGN
  | CONCAT
  | MATCH | NOT_MATCH
  | LCURLY | RCURLY | LPAREN | RPAREN | LSQUARE | RSQUARE
  | COMMA
  | NL

text \<open>
  The nodes of the syntax tree that the expression rules build. The operator of a
  \<^verbatim>\<open>BinaryExpr\<close> or \<^verbatim>\<open>UnaryExpr\<close> is the kind of its token. \<^verbatim>\<open>Args\<close> of a \<^verbatim>\<open>BuiltinExpr\<close>
  is \<^verbatim>\<open>nil\<close> or an \<^verbatim>\<open>ExprList\<close>.
\<close>

datatype node =
    BinaryExpr node node token
  | UnaryExpr node token
  | IndexedExpr node node
  | BuiltinExpr string "node option"
  | CaprefTerm string bool
  | StringLit string
  | IntLit int
  | FloatLit float64
  | IdTerm string
  | PatternExpr node
  | PatternLit string
  | ExprList "node list"

text \<open>The rules whose right-hand side is a single operator token, and \<^verbatim>\<open>opt_nl\<close>.\<close>

definition logical_op :: "token \<Rightarrow> bool" where
  "logical_op t = (t = AND \<or> t = OR)"

definition bitwise_op :: "token \<Rightarrow> bool" where
  "bitwise_op t = (t = BITAND \<or> t = BITOR \<or> t = XOR)"

definition rel_op :: "token \<Rightarrow> bool" where
  "rel_op t = (t = LT \<or> t = GT \<or> t = LE \<or> t = GE \<or> t = EQ \<or> t = NE)"

definition shift_op :: "token \<Rightarrow> bool" where
  "shift_op t = (t = SHL \<or> t = SHR)"

definition add_op :: "token \<Rightarrow> bool" where
  "add_op t = (t = PLUS \<or> t = MINUS)"

definition mul_op :: "token \<Rightarrow> bool" where
  "mul_op t = (t = MUL \<or> t = DIV \<or> t = MOD \<or> t = POW)"

definition match_op :: "token \<Rightarrow> bool" where
  "match_op t = (t = MATCH \<or> t = NOT_MATCH)"

definition postfix_op :: "token \<Rightarrow> bool" where
  "postfix_op t = (t = INC \<or> t = DEC)"

definition opt_nl :: "token list \<Rightarrow> bool" where
  "opt_nl ts = (ts = [] \<or> ts = [NL])"

text \<open>
  Every other nonterminal \<open>x\<close> is a relation \<open>x ts n\<close>: the rules of \<open>x\<close> derive the
  token list \<open>ts\<close> and their actions build the node \<open>n\<close>. There is one introduction rule
  for each alternative of the grammar, in the order of the file. The marker nonterminals
  \<^verbatim>\<open>mark_pos\<close> and \<^verbatim>\<open>in_regex\<close> derive the empty list and build nothing.
\<close>

inductive id_expr :: "token list \<Rightarrow> node \<Rightarrow> bool" where
  id_expr_1: "id_expr [ID_tok x] (IdTerm x)"

inductive regex_pattern :: "token list \<Rightarrow> node \<Rightarrow> bool" where
  regex_pattern_1: "regex_pattern [DIV, REGEX p, DIV] (PatternLit p)"

inductive concat_expr :: "token list \<Rightarrow> node \<Rightarrow> bool" where
  concat_expr_1: "regex_pattern ts n \<Longrightarrow> concat_expr ts n"
| concat_expr_2:
    "concat_expr ts1 l \<Longrightarrow> opt_nl nl \<Longrightarrow> regex_pattern ts2 r
     \<Longrightarrow> concat_expr (ts1 @ [PLUS] @ nl @ ts2) (BinaryExpr l r CONCAT)"
| concat_expr_3:
    "concat_expr ts1 l \<Longrightarrow> opt_nl nl \<Longrightarrow> id_expr ts2 r
     \<Longrightarrow> concat_expr (ts1 @ [PLUS] @ nl @ ts2) (BinaryExpr l r CONCAT)"

inductive pattern_expr :: "token list \<Rightarrow> node \<Rightarrow> bool" where
  pattern_expr_1: "concat_expr ts n \<Longrightarrow> pattern_expr ts (PatternExpr n)"

inductive implicit_match_expr :: "token list \<Rightarrow> node \<Rightarrow> bool" where
  implicit_match_expr_1: "pattern_expr ts n \<Longrightarrow> implicit_match_expr ts (UnaryExpr n MATCH)"

inductive logical_expr :: "token list \<Rightarrow> node \<Rightarrow> bool"
  and bitwise_expr :: "token list \<Rightarrow> node \<Rightarrow> bool"
  and rel_expr :: "token list \<Rightarrow> node \<Rightarrow> bool"
  and shift_expr :: "token list \<Rightarrow> node \<Rightarrow> bool"
  and additive_expr :: "token list \<Rightarrow> node \<Rightarrow> bool"
  and match_expr :: "token list \<Rightarrow> node \<Rightarrow> bool"
  and multiplicative_expr :: "token list \<Rightarrow> node \<Rightarrow> bool"
  and unary_expr :: "token list \<Rightarrow> node \<Rightarrow> bool"
  and postfix_expr :: "token list \<Rightarrow> node \<Rightarrow> bool"
  and primary_expr :: "token list \<Rightarrow> node \<Rightarrow> bool"
  and indexed_expr :: "token list \<Rightarrow> node \<Rightarrow> bool"
  and arg_expr_list :: "token list \<Rightarrow> node \<Rightarrow> bool"
where
  logical_expr_1: "bitwise_expr ts n \<Longrightarrow> logical_expr ts n"
| logical_expr_2: "match_expr ts n \<Longrightarrow> logical_expr ts n"
| logical_expr_3:
    "logical_expr ts1 l \<Longrightarrow> logical_op op \<Longrightarrow> opt_nl nl \<Longrightarrow> bitwise_expr ts2 r
     \<Longrightarrow> logical_expr (ts1 @ [op] @ nl @ ts2) (BinaryExpr l r op)"
| logical_expr_4:
    "logical_expr ts1 l \<Longrightarrow> logical_op op \<Longrightarrow> opt_nl nl \<Longrightarrow> match_expr ts2 r
     \<Longrightarrow> logical_expr (ts1 @ [op] @ nl @ ts2) (BinaryExpr l r op)"
| bitwise_expr_1: "rel_expr ts n \<Longrightarrow> bitwise_expr ts n"
| bitwise_expr_2:
    "bitwise_expr ts1 l \<Longrightarrow> bitwise_op op \<Longrightarrow> opt_nl nl \<Longrightarrow> rel_expr ts2 r
     \<Longrightarrow> bitwise_expr (ts1 @ [op] @ nl @ ts2) (BinaryExpr l r op)"
| rel_expr_1: "shift_expr ts n \<Longrightarrow> rel_expr ts n"
| rel_expr_2:
    "rel_expr ts1 l \<Longrightarrow> rel_op op \<Longrightarrow> opt_nl nl \<Longrightarrow> shift_expr ts2 r
     \<Longrightarrow> rel_expr (ts1 @ [op] @ nl @ ts2) (BinaryExpr l r op)"
| shift_expr_1: "additive_expr ts n \<Longrightarrow> shift_expr ts n"
| shift_expr_2:
    "shift_expr ts1 l \<Longrightarrow> shift_op op \<Longrightarrow> opt_nl nl \<Longrightarrow> additive_expr ts2 r
     \<Longrightarrow> shift_expr (ts1 @ [op] @ nl @ ts2) (BinaryExpr l r op)"
| additive_expr_1: "multiplicative_expr ts n \<Longrightarrow> additive_expr ts n"
| additive_expr_2:
    "additive_expr ts1 l \<Longrightarrow> add_op op \<Longrightarrow> opt_nl nl \<Longrightarrow> multiplicative_expr ts2 r
     \<Longrightarrow> additive_expr (ts1 @ [op] @ nl @ ts2) (BinaryExpr l r op)"
| match_expr_1: "implicit_match_expr ts n \<Longrightarrow> match_expr ts n"
| match_expr_2:
    "primary_expr ts1 l \<Longrightarrow> match_op op \<Longrightarrow> opt_nl nl \<Longrightarrow> pattern_expr ts2 r
     \<Longrightarrow> match_expr (ts1 @ [op] @ nl @ ts2) (BinaryExpr l r op)"
| match_expr_3:
    "primary_expr ts1 l \<Longrightarrow> match_op op \<Longrightarrow> opt_nl nl \<Longrightarrow> primary_expr ts2 r
     \<Longrightarrow> match_expr (ts1 @ [op] @ nl @ ts2) (BinaryExpr l r op)"
| multiplicative_expr_1: "unary_expr ts n \<Longrightarrow> multiplicative_expr ts n"
| multiplicative_expr_2:
    "multiplicative_expr ts1 l \<Longrightarrow> mul_op op \<Longrightarrow> opt_nl nl \<Longrightarrow> unary_expr ts2 r
     \<Longrightarrow> multiplicative_expr (ts1 @ [op] @ nl @ ts2) (BinaryExpr l r op)"
| unary_expr_1: "postfix_expr ts n \<Longrightarrow> unary_expr ts n"
| unary_expr_2: "unary_expr ts n \<Longrightarrow> unary_expr (NOT # ts) (UnaryExpr n NOT)"
| postfix_expr_1: "primary_expr ts n \<Longrightarrow> postfix_expr ts n"
| postfix_expr_2:
    "postfix_expr ts n \<Longrightarrow> postfix_op op \<Longrightarrow> postfix_expr (ts @ [op]) (UnaryExpr n op)"
| primary_expr_1: "indexed_expr ts n \<Longrightarrow> primary_expr ts n"
| primary_expr_2: "primary_expr [BUILTIN f, LPAREN, RPAREN] (BuiltinExpr f None)"
| primary_expr_3:
    "arg_expr_list ts args
     \<Longrightarrow> primary_expr ([BUILTIN f, LPAREN] @ ts @ [RPAREN]) (BuiltinExpr f (Some args))"
| primary_expr_4: "primary_expr [CAPREF x] (CaprefTerm x False)"
| primary_expr_5: "primary_expr [CAPREF_NAMED x] (CaprefTerm x True)"
| primary_expr_6: "primary_expr [STRING x] (StringLit x)"
| primary_expr_7: "logical_expr ts n \<Longrightarrow> primary_expr ([LPAREN] @ ts @ [RPAREN]) n"
| primary_expr_8: "primary_expr [INTLITERAL i] (IntLit i)"
| primary_expr_9: "primary_expr [FLOATLITERAL x] (FloatLit x)"
| indexed_expr_1: "id_expr ts n \<Longrightarrow> indexed_expr ts (IndexedExpr n (ExprList []))"
| indexed_expr_2:
    "indexed_expr ts1 (IndexedExpr l (ExprList xs)) \<Longrightarrow> arg_expr_list ts2 (ExprList ys)
     \<Longrightarrow> indexed_expr (ts1 @ [LSQUARE] @ ts2 @ [RSQUARE]) (IndexedExpr l (ExprList (xs @ ys)))"
| arg_expr_list_1: "bitwise_expr ts n \<Longrightarrow> arg_expr_list ts (ExprList [n])"
| arg_expr_list_2:
    "arg_expr_list ts1 (ExprList xs) \<Longrightarrow> bitwise_expr ts2 n
     \<Longrightarrow> arg_expr_list (ts1 @ [COMMA] @ ts2) (ExprList (xs @ [n]))"

text \<open>The operand \<open>x\<close> as the rules build it from the token \<^verbatim>\<open>ID\<close>.\<close>

definition ident :: "string \<Rightarrow> node" where
  "ident x = IndexedExpr (IdTerm x) (ExprList [])"

text \<open>
  \<open>enclosed ts\<close>: every logical operator token of \<open>ts\<close> has a closing parenthesis
  somewhere after it.
\<close>

fun enclosed :: "token list \<Rightarrow> bool" where
  "enclosed [] = True"
| "enclosed (t # ts) = ((logical_op t \<longrightarrow> RPAREN \<in> set ts) \<and> enclosed ts)"

subsection \<open>Predicates on types for the properties of unification\<close>

definition isTypeError :: "ty \<Rightarrow> bool" where
  "isTypeError t = (case t of TypeError k ex rc \<Rightarrow> True | _ \<Rightarrow> False)"


text \<open>
  \<open>finite_type h t\<close>: following instances and descending into the arguments of operators
  from \<open>t\<close> always comes to an end. \<open>occurs h p t\<close>: on the way, a variable with the
  \<^verbatim>\<open>ID\<close> of the cell \<open>p\<close> is met.
\<close>

inductive finite_type :: "heap \<Rightarrow> ty \<Rightarrow> bool" for h :: heap where
  fin_Variable: "resolves h t (Variable q) \<Longrightarrow> finite_type h t"
| fin_TypeError: "resolves h t (TypeError k ex rc) \<Longrightarrow> finite_type h t"
| fin_Operator:
    "resolves h t (Operator nm args) \<Longrightarrow> (\<forall>x\<in>set args. finite_type h x) \<Longrightarrow> finite_type h t"

inductive occurs :: "heap \<Rightarrow> nat \<Rightarrow> ty \<Rightarrow> bool" for h :: heap and p :: nat where
  occ_Variable: "resolves h t (Variable q) \<Longrightarrow> ID (h q) = ID (h p) \<Longrightarrow> occurs h p t"
| occ_Operator:
    "resolves h t (Operator nm args) \<Longrightarrow> x \<in> set args \<Longrightarrow> occurs h p x \<Longrightarrow> occurs h p t"

text \<open>
  \<open>pairwise_unified n xs ys hs ts\<close>: the arguments \<open>xs\<close> and \<open>ys\<close> are unified pair by
  pair, from left to right. \<open>hs ! i\<close> is the heap in which pair \<open>i\<close> is unified,
  \<open>ts ! i\<close> is the type that \<^verbatim>\<open>Unify\<close> returns for it, which is no type error, and
  \<open>hs ! Suc i\<close> is the heap it leaves; so \<open>hd hs\<close> is the heap before the first pair and
  \<open>last hs\<close> the heap after the last.
\<close>

definition pairwise_unified :: "nat \<Rightarrow> ty list \<Rightarrow> ty list \<Rightarrow> heap list \<Rightarrow> ty list \<Rightarrow> bool" where
  "pairwise_unified n xs ys hs ts =
     (length ys = length xs \<and> length ts = length xs \<and> length hs = Suc (length xs) \<and>
      (\<forall>i<length xs. Unify n (xs ! i) (ys ! i) (hs ! i) = Inr (ts ! i, hs ! Suc i) \<and>
                      \<not> isTypeError (ts ! i)))"

text \<open>
  \<open>unified_into nm n xs ys h r h'\<close>: unifying the arguments \<open>xs\<close> and \<open>ys\<close> pairwise into
  the operator named \<open>nm\<close>, starting in the heap \<open>h\<close>, gives \<open>r\<close> and leaves \<open>h'\<close>.
  Either every pair is unified without error and \<open>r\<close> is the operator \<open>nm\<close> of the
  results; or some pair \<open>i\<close> is unified to a type error after the pairs before it were
  unified without error, and \<open>r\<close> is that error and \<open>h'\<close> the heap that pair \<open>i\<close> leaves.
\<close>

definition unified_into ::
  "string \<Rightarrow> nat \<Rightarrow> ty list \<Rightarrow> ty list \<Rightarrow> heap \<Rightarrow> ty \<Rightarrow> heap \<Rightarrow> bool" where
  "unified_into nm n xs ys h r h' =
     ((\<exists>hs ts. pairwise_unified n xs ys hs ts \<and> hd hs = h \<and> last hs = h' \<and>
         r = Operator nm ts) \<or>
      (\<exists>i hs ts. i < length xs \<and> pairwise_unified n (take i xs) (take i ys) hs ts \<and>
         hd hs = h \<and> Unify n (xs ! i) (ys ! i) (last hs) = Inr (r, h') \<and> isTypeError r))"


section \<open>Properties\<close>

subsection \<open>Chains and path compression\<close>

lemma is_root_simps [simp]:
  "is_root h (Variable p) = (Instance (h p) = None)"
  "is_root h (Operator nm args)"
  "is_root h (TypeError k ex rc)"
  by (simp_all add: is_root_def)

lemma resolves_is_root: "resolves h t r \<Longrightarrow> is_root h r"
  by (induction rule: resolves.induct) simp_all

lemma is_root_resolves: "is_root h r \<Longrightarrow> resolves h r r"
  by (cases r) (auto intro: resolves.intros)

lemma resolves_root_eq: "resolves h t r \<Longrightarrow> is_root h t \<Longrightarrow> r = t"
  by (induction rule: resolves.induct) simp_all

lemma resolves_det: "resolves h t r \<Longrightarrow> resolves h t r' \<Longrightarrow> r' = r"
proof (induction arbitrary: r' rule: resolves.induct)
  case (res_bound p i r)
  from res_bound.prems res_bound.hyps(1) have "resolves h i r'"
    by (cases rule: resolves.cases) auto
  then show ?case by (rule res_bound.IH)
qed (auto elim: resolves.cases)

lemma Root_is_root: "is_root h r \<Longrightarrow> Root n r h = Inr (r, h)"
  by (cases r) simp_all

lemma compressedD:
  "compressed h h' \<Longrightarrow> h' p = h p \<or> (\<exists>r. Instance (h p) \<noteq> None \<and> resolves h (Variable p) r \<and>
               h' p = (h p)\<lparr>Instance := Some r\<rparr>)"
  by (simp add: compressed_def)

lemma compressed_refl: "compressed h h"
  by (simp add: compressed_def)

lemma compressed_ID: "compressed h h' \<Longrightarrow> ID (h' p) = ID (h p)"
  using compressedD[of h h' p] by auto

lemma compressed_unbound: "compressed h h' \<Longrightarrow> (Instance (h' p) = None) = (Instance (h p) = None)"
  using compressedD[of h h' p] by auto

lemma compressed_is_root: "compressed h h' \<Longrightarrow> is_root h' r = is_root h r"
  by (cases r) (simp_all add: compressed_unbound)

lemma compressed_resolves:
  assumes c: "compressed h h'" shows "resolves h t r \<Longrightarrow> resolves h' t r"
proof (induction rule: resolves.induct)
  case (res_unbound p)
  then have "Instance (h' p) = None" using c by (simp add: compressed_unbound)
  then show ?case by (rule resolves.res_unbound)
next
  case (res_bound p i r)
  from compressedD[OF c, of p]
  have "h' p = h p \<or> (\<exists>r'. resolves h (Variable p) r' \<and> h' p = (h p)\<lparr>Instance := Some r'\<rparr>)"
    by blast
  then show ?case
  proof
    assume "h' p = h p"
    then have "Instance (h' p) = Some i" using res_bound.hyps by simp
    then show ?thesis using res_bound.IH by (rule resolves.res_bound)
  next
    assume "\<exists>r'. resolves h (Variable p) r' \<and> h' p = (h p)\<lparr>Instance := Some r'\<rparr>"
    then obtain r' where r': "resolves h (Variable p) r'" "h' p = (h p)\<lparr>Instance := Some r'\<rparr>"
      by blast
    have "resolves h (Variable p) r" using res_bound.hyps by (rule resolves.res_bound)
    then have "r' = r" using r'(1) by (rule resolves_det)
    have "is_root h r" using res_bound.hyps(2) by (rule resolves_is_root)
    then have "is_root h' r" using c by (simp add: compressed_is_root)
    then have "resolves h' r r" by (rule is_root_resolves)
    moreover have "Instance (h' p) = Some r" using r'(2) \<open>r' = r\<close> by simp
    ultimately show ?thesis by (rule resolves.res_bound[rotated])
  qed
qed (auto intro: resolves.intros)

lemma compressed_resolves_back:
  assumes c: "compressed h h'" shows "resolves h' t r \<Longrightarrow> resolves h t r"
proof (induction rule: resolves.induct)
  case (res_unbound p)
  then have "Instance (h p) = None" using c by (simp add: compressed_unbound)
  then show ?case by (rule resolves.res_unbound)
next
  case (res_bound p i r)
  from compressedD[OF c, of p]
  have "h' p = h p \<or> (\<exists>r'. resolves h (Variable p) r' \<and> h' p = (h p)\<lparr>Instance := Some r'\<rparr>)"
    by blast
  then show ?case
  proof
    assume "h' p = h p"
    then have "Instance (h p) = Some i" using res_bound.hyps by simp
    then show ?thesis using res_bound.IH by (rule resolves.res_bound)
  next
    assume "\<exists>r'. resolves h (Variable p) r' \<and> h' p = (h p)\<lparr>Instance := Some r'\<rparr>"
    then obtain r' where r': "resolves h (Variable p) r'" "h' p = (h p)\<lparr>Instance := Some r'\<rparr>"
      by blast
    then have "i = r'" using res_bound.hyps(1) by simp
    have "is_root h r'" using r'(1) by (rule resolves_is_root)
    then have "r = r'" using res_bound.IH \<open>i = r'\<close> by (simp add: resolves_root_eq)
    then show ?thesis using r'(1) by simp
  qed
qed (auto intro: resolves.intros)

lemma compressed_trans:
  assumes "compressed h h'" "compressed h' h''" shows "compressed h h''"
  unfolding compressed_def
proof
  fix p
  from assms(2) have "h'' p = h' p \<or> (\<exists>r. Instance (h' p) \<noteq> None \<and> resolves h' (Variable p) r \<and>
               h'' p = (h' p)\<lparr>Instance := Some r\<rparr>)" by (rule compressedD)
  then show "h'' p = h p \<or> (\<exists>r. Instance (h p) \<noteq> None \<and> resolves h (Variable p) r \<and>
               h'' p = (h p)\<lparr>Instance := Some r\<rparr>)"
  proof
    assume "h'' p = h' p"
    then show ?thesis using compressedD[OF assms(1), of p] by simp
  next
    assume "\<exists>r. Instance (h' p) \<noteq> None \<and> resolves h' (Variable p) r \<and>
               h'' p = (h' p)\<lparr>Instance := Some r\<rparr>"
    then obtain r where r: "Instance (h' p) \<noteq> None" "resolves h' (Variable p) r"
      "h'' p = (h' p)\<lparr>Instance := Some r\<rparr>" by blast
    have 1: "Instance (h p) \<noteq> None" using r(1) assms(1) by (simp add: compressed_unbound)
    have 2: "resolves h (Variable p) r" using assms(1) r(2) by (rule compressed_resolves_back)
    have "h' p = h p \<or> (\<exists>r'. h' p = (h p)\<lparr>Instance := Some r'\<rparr>)"
      using compressedD[OF assms(1), of p] by blast
    then have 3: "h'' p = (h p)\<lparr>Instance := Some r\<rparr>" using r(3) by auto
    show ?thesis using 1 2 3 by blast
  qed
qed

lemma Root_sound:
  "Root n t h = Inr (r, h') \<Longrightarrow> resolves h t r \<and> compressed h h'"
proof (induction n arbitrary: t h r h')
  case 0
  then show ?case
    by (cases t) (auto simp: compressed_refl intro: resolves.intros split: option.splits)
next
  case (Suc m)
  show ?case
  proof (cases t)
    case (Variable p)
    show ?thesis
    proof (cases "Instance (h p)")
      case None
      then show ?thesis using Suc.prems Variable
        by (auto simp: compressed_refl intro: resolves.intros)
    next
      case (Some i)
      then obtain h1 where 1: "Root m i h = Inr (r, h1)" and h': "h' = SetInstance p r h1"
        using Suc.prems Variable by (auto split: sum.splits)
      from Suc.IH[OF 1] have res: "resolves h i r" and c: "compressed h h1" by simp_all
      have rp: "resolves h (Variable p) r" using Some res by (rule resolves.res_bound)
      have "compressed h h'"
        unfolding compressed_def
      proof
        fix q
        show "h' q = h q \<or> (\<exists>r. Instance (h q) \<noteq> None \<and> resolves h (Variable q) r \<and>
               h' q = (h q)\<lparr>Instance := Some r\<rparr>)"
        proof (cases "q = p")
          case False
          then have "h' q = h1 q" by (simp add: h' SetInstance_def)
          then show ?thesis using compressedD[OF c, of q] by simp
        next
          case True
          have "h1 p = h p \<or> (\<exists>r'. h1 p = (h p)\<lparr>Instance := Some r'\<rparr>)"
            using compressedD[OF c, of p] by blast
          then have "h' p = (h p)\<lparr>Instance := Some r\<rparr>"
            by (auto simp: h' SetInstance_def)
          then show ?thesis using True Some rp by auto 
        qed
      qed
      then show ?thesis using rp Variable by simp
    qed
  qed (use Suc.prems in \<open>auto simp: compressed_refl intro: resolves.intros\<close>)
qed

lemma Root_complete:
  "resolves h t r \<Longrightarrow> \<exists>k h'. \<forall>n\<ge>k. Root n t h = Inr (r, h')"
proof (induction rule: resolves.induct)
  case (res_bound p i r)
  then obtain k h' where kh: "\<forall>n\<ge>k. Root n i h = Inr (r, h')" by blast
  have "\<forall>n\<ge>Suc k. Root n (Variable p) h = Inr (r, SetInstance p r h')"
  proof (intro allI impI)
    fix n assume "Suc k \<le> n"
    then obtain m where "n = Suc m" "k \<le> m" by (cases n) auto
    then show "Root n (Variable p) h = Inr (r, SetInstance p r h')"
      using kh res_bound.hyps(1) by simp
  qed
  then show ?case by blast
qed auto

lemma Root_on_chain:
  "Root n t h = Inr (r, h') \<Longrightarrow> on_chain h t q \<Longrightarrow> Instance (h' q) = Some r"
proof (induction n arbitrary: t h r h')
  case 0
  from "0.prems"(2) show ?case
    by (cases rule: on_chain.cases) (use "0.prems"(1) in auto)
next
  case (Suc m)
  from Suc.prems(2) show ?case
  proof (cases rule: on_chain.cases)
    case (chain_here i)
    then show ?thesis using Suc.prems(1) by (auto simp: SetInstance_def split: sum.splits)
  next
    case (chain_next p i)
    then obtain h1 where 1: "Root m i h = Inr (r, h1)" and h': "h' = SetInstance p r h1"
      using Suc.prems(1) by (auto split: sum.splits)
    from Suc.IH[OF 1 chain_next(3)] show ?thesis by (simp add: h' SetInstance_def)
  qed
qed

lemma Root_off_chain:
  "Root n t h = Inr (r, h') \<Longrightarrow> \<not> on_chain h t q \<Longrightarrow> h' q = h q"
proof (induction n arbitrary: t h r h')
  case 0
  then show ?case by (cases t) (auto split: option.splits)
next
  case (Suc m)
  show ?case
  proof (cases t)
    case (Variable p)
    show ?thesis
    proof (cases "Instance (h p)")
      case None
      then show ?thesis using Suc.prems Variable by auto
    next
      case (Some i)
      then obtain h1 where 1: "Root m i h = Inr (r, h1)" and h': "h' = SetInstance p r h1"
        using Suc.prems Variable by (auto split: sum.splits)
      have "q \<noteq> p" using Suc.prems(2) Variable Some by (auto intro: on_chain.intros)
      moreover have "\<not> on_chain h i q" using Suc.prems(2) Variable Some by (auto intro: on_chain.intros)
      ultimately show ?thesis using Suc.IH[OF 1] by (simp add: h' SetInstance_def)
    qed
  qed (use Suc.prems in auto)
qed

text \<open>
  Claim C9. \<^verbatim>\<open>Root\<close> on a variable: an unbound variable returns itself and leaves the
  heap as it is. A bound variable whose chain of instances ends at \<open>r\<close> returns \<open>r\<close>,
  which is what \<^verbatim>\<open>Root\<close> of its instance returns, given a budget that covers the length
  of the chain; afterwards \<open>r\<close> is still the end of a chain, the variable's own
  \<^verbatim>\<open>Instance\<close> and that of every variable on the chain is \<open>r\<close>, and no other cell and
  no \<^verbatim>\<open>ID\<close> has changed.
\<close>

theorem Root_path_compression:
  "(Instance (h p) = None \<longrightarrow> (\<forall>n. Root n (Variable p) h = Inr (Variable p, h))) \<and>
   (\<forall>i r. Instance (h p) = Some i \<and> resolves h i r \<longrightarrow>
      (\<exists>k h'. (\<forall>n\<ge>k. Root n (Variable p) h = Inr (r, h') \<and> (\<exists>h1. Root n i h = Inr (r, h1))) \<and>
         is_root h' r \<and>
         Instance (h' p) = Some r \<and>
         (\<forall>q. on_chain h (Variable p) q \<longrightarrow> Instance (h' q) = Some r) \<and>
         (\<forall>q. \<not> on_chain h (Variable p) q \<longrightarrow> h' q = h q) \<and>
         (\<forall>q. ID (h' q) = ID (h q))))"
proof (intro conjI allI impI)
  fix n assume "Instance (h p) = None"
  then show "Root n (Variable p) h = Inr (Variable p, h)" by simp
next
  fix i r assume a: "Instance (h p) = Some i \<and> resolves h i r"
  then have rp: "resolves h (Variable p) r" by (auto intro: resolves.res_bound)
  from Root_complete[OF rp] obtain k h' where k: "\<forall>n\<ge>k. Root n (Variable p) h = Inr (r, h')"
    by blast
  from a Root_complete[of h i r] obtain k1 h1 where k1: "\<forall>n\<ge>k1. Root n i h = Inr (r, h1)"
    by blast
  have R: "Root k (Variable p) h = Inr (r, h')" using k by simp
  have c: "compressed h h'" using Root_sound[OF R] by simp
  have 1: "is_root h' r" using resolves_is_root[OF rp] c by (simp add: compressed_is_root)
  have 2: "Instance (h' p) = Some r" using Root_on_chain[OF R, of p] a
    by (auto intro: on_chain.chain_here)
  have "\<forall>n\<ge>max k k1. Root n (Variable p) h = Inr (r, h') \<and> (\<exists>h1. Root n i h = Inr (r, h1))"
    using k k1 by auto
  then show "\<exists>k h'. (\<forall>n\<ge>k. Root n (Variable p) h = Inr (r, h') \<and> (\<exists>h1. Root n i h = Inr (r, h1))) \<and>
         is_root h' r \<and>
         Instance (h' p) = Some r \<and>
         (\<forall>q. on_chain h (Variable p) q \<longrightarrow> Instance (h' q) = Some r) \<and>
         (\<forall>q. \<not> on_chain h (Variable p) q \<longrightarrow> h' q = h q) \<and>
         (\<forall>q. ID (h' q) = ID (h q))"
    using 1 2 Root_on_chain[OF R] Root_off_chain[OF R] compressed_ID[OF c] by blast
qed

theorem Root_path_compression_witness:
  "Instance (chain3 0) = Some (Variable 1) \<and> resolves chain3 (Variable 1) (Variable 2) \<and>
   on_chain chain3 (Variable 0) 1 \<and>
   (\<exists>k h'. (\<forall>n\<ge>k. Root n (Variable 0) chain3 = Inr (Variable 2, h')) \<and>
      Instance (h' 0) = Some (Variable 2) \<and> Instance (h' 1) = Some (Variable 2) \<and>
      Instance (h' 2) = None) \<and>
   Instance (chain3 2) = None \<and> (\<forall>n. Root n (Variable 2) chain3 = Inr (Variable 2, chain3))"
proof -
  have 1: "Instance (chain3 0) = Some (Variable 1)" by (simp add: chain3_def)
  have b: "Instance (chain3 1) = Some (Variable 2)" by (simp add: chain3_def)
  have u: "Instance (chain3 2) = None" by (simp add: chain3_def)
  have 2: "resolves chain3 (Variable 1) (Variable 2)"
    using b u by (blast intro: resolves.intros)
  have 3: "on_chain chain3 (Variable 0) 1"
    using 1 b by (blast intro: on_chain.intros)
  have 4: "\<not> on_chain chain3 (Variable 0) 2"
  proof
    assume "on_chain chain3 (Variable 0) 2"
    then have "on_chain chain3 (Variable 1) 2" using 1 by (cases rule: on_chain.cases) auto
    then have "on_chain chain3 (Variable 2) 2" using b by (cases rule: on_chain.cases) auto
    then show False using u by (cases rule: on_chain.cases) auto
  qed
  from Root_path_compression[of chain3 0] 1 2
  obtain k h' where kh: "\<forall>n\<ge>k. Root n (Variable 0) chain3 = Inr (Variable 2, h')"
     "Instance (h' 0) = Some (Variable 2)"
     "\<forall>q. on_chain chain3 (Variable 0) q \<longrightarrow> Instance (h' q) = Some (Variable 2)"
     "\<forall>q. \<not> on_chain chain3 (Variable 0) q \<longrightarrow> h' q = chain3 q"
    by blast
  have "Instance (h' 1) = Some (Variable 2)" using kh(3) 3 by blast
  moreover have "Instance (h' 2) = None" using kh(4) 4 u by simp
  moreover have "\<forall>n. Root n (Variable 2) chain3 = Inr (Variable 2, chain3)"
    using Root_path_compression[of chain3 2] u by blast
  ultimately show ?thesis using 1 2 3 u kh(1,2) by blast
qed

lemma Root_chain3:
  "Root 2 (Variable 0) chain3 =
     Inr (Variable 2, SetInstance 0 (Variable 2) (SetInstance 1 (Variable 2) chain3))"
  by (simp add: chain3_def numeral_2_eq_2)

subsection \<open>Capture groups\<close>

lemma getCaptureGroup_no_capture:
  "\<not> has_capture re cg \<Longrightarrow> getCaptureGroup re cg = Inr None"
  "(\<forall>g\<in>set gs. \<not> has_capture g cg) \<Longrightarrow> getCaptureGroup_subs gs cg = Inr None"
  by (induction re cg and gs cg rule: getCaptureGroup_getCaptureGroup_subs.induct) auto

text \<open>
  Claim C10. When no node of the syntax tree is a capture numbered \<open>cg\<close>,
  \<^verbatim>\<open>InferCaprefType\<close> returns the type \<^verbatim>\<open>None\<close>: it neither fails nor returns a type
  error, whatever the budget, the printer and the heap, and it leaves the heap as it is.
\<close>

theorem InferCaprefType_no_group:
  "\<not> has_capture re cg \<Longrightarrow> InferCaprefType str n re cg h = Inr (None_t, h)"
  by (simp add: InferCaprefType_def getCaptureGroup_no_capture(1) ret_def)

theorem InferCaprefType_no_group_witness:
  "\<not> has_capture (concat_re [lit ''a'', capture 1 (lit ''b'')]) 2 \<and>
   InferCaprefType Regexp_String 0 (concat_re [lit ''a'', capture 1 (lit ''b'')]) 2 fresh
     = Inr (Operator ''None'' [], fresh)"
proof -
  have 1: "\<not> has_capture (concat_re [lit ''a'', capture 1 (lit ''b'')]) 2"
    by (simp add: concat_re_def lit_def capture_def)
  show ?thesis using 1 InferCaprefType_no_group[OF 1, of Regexp_String 0 fresh]
    by (simp add: None_t_def)
qed

subsection \<open>The least upper bound\<close>

lemma pure_andM:
  "p h = Inr (x, h) \<Longrightarrow> q h = Inr (y, h) \<Longrightarrow> andM p q h = Inr (x \<and> y, h)"
  by (simp add: andM_def seq_def ret_def)

lemma pure_orM:
  "p h = Inr (x, h) \<Longrightarrow> q h = Inr (y, h) \<Longrightarrow> orM p q h = Inr (x \<or> y, h)"
  by (simp add: orM_def seq_def ret_def)

lemma seq_pure: "m h = Inr (x, h') \<Longrightarrow> seq m f h = f x h'"
  by (simp add: seq_def)

lemma builtin_defs:
  "Undef_t = Operator ''Undef'' []" "Float_t = Operator ''Float'' []"
  "Int_t = Operator ''Int'' []" "String_t = Operator ''String'' []"
  "Pattern_t = Operator ''Pattern'' []" "Bool_t = Operator ''Bool'' []"
  "None_t = Operator ''None'' []" "Buckets_t = Operator ''Buckets'' []"
  by (simp_all add: Undef_t_def Float_t_def Int_t_def String_t_def Pattern_t_def Bool_t_def
      None_t_def Buckets_t_def)

lemma Equals_nullary:
  "Equals (Suc n) (Operator x []) (Operator y []) h = Inr (x = y, h)"
  by (simp add: seq_def ret_def)

lemma Equals_atomic:
  assumes "is_root h x" "is_root h y" "atomic x" "atomic y"
  shows "Equals (Suc (Suc (Suc n))) x y h = Inr (same_root h x y, h)"
  using assms
  by (cases x; cases y)
     (simp_all add: seq_def ret_def same_root_def atomic_def)

lemma same_root_builtin:
  "atomic x \<Longrightarrow> same_root h x (Operator nm []) = (x = Operator nm [])"
  by (cases x) (auto simp: same_root_def atomic_def)

text \<open>The cascade of tests of LeastUpperBound once every call of Equals it makes is known.\<close>

lemma pure_pair:
  "p1 h = Inr (x1, h) \<Longrightarrow> q1 h = Inr (y1, h) \<Longrightarrow> p2 h = Inr (x2, h) \<Longrightarrow> q2 h = Inr (y2, h)
   \<Longrightarrow> orM (andM p1 q1) (andM p2 q2) h = Inr (x1 \<and> y1 \<or> x2 \<and> y2, h)"
  by (simp add: pure_orM pure_andM)

lemma LUB_cascade:
  assumes Ra: "Root n a h = Inr (a1, h1)" and Rb: "Root n b h1 = Inr (b1, h2)"
    and at: "atomic a1" "atomic b1"
    and E0: "Equals n a1 b1 h2 = Inr (same_root h2 a1 b1, h2)"
    and Ea: "\<And>nm. Equals n a1 (Operator nm []) h2 = Inr (same_root h2 a1 (Operator nm []), h2)"
    and Eb: "\<And>nm. Equals n b1 (Operator nm []) h2 = Inr (same_root h2 b1 (Operator nm []), h2)"
  shows "LeastUpperBound n a b h = Inr (lub_table h2 a b a1 b1, h2)"
proof -
  have A0: "Equals n a1 (Operator nm []) h2 = Inr (a1 = Operator nm [], h2)" for nm
    using Ea[of nm] by (simp add: same_root_builtin[OF at(1)])
  have B0: "Equals n b1 (Operator nm []) h2 = Inr (b1 = Operator nm [], h2)" for nm
    using Eb[of nm] by (simp add: same_root_builtin[OF at(2)])
  have A: "Equals n a1 Undef_t h2 = Inr (a1 = Undef_t, h2)"
    "Equals n a1 Float_t h2 = Inr (a1 = Float_t, h2)"
    "Equals n a1 Int_t h2 = Inr (a1 = Int_t, h2)"
    "Equals n a1 String_t h2 = Inr (a1 = String_t, h2)"
    "Equals n a1 Pattern_t h2 = Inr (a1 = Pattern_t, h2)"
    "Equals n a1 Bool_t h2 = Inr (a1 = Bool_t, h2)"
    by (simp_all add: builtin_defs A0)
  have B: "Equals n b1 Undef_t h2 = Inr (b1 = Undef_t, h2)"
    "Equals n b1 Float_t h2 = Inr (b1 = Float_t, h2)"
    "Equals n b1 Int_t h2 = Inr (b1 = Int_t, h2)"
    "Equals n b1 String_t h2 = Inr (b1 = String_t, h2)"
    "Equals n b1 Pattern_t h2 = Inr (b1 = Pattern_t, h2)"
    "Equals n b1 Bool_t h2 = Inr (b1 = Bool_t, h2)"
    by (simp_all add: builtin_defs B0)
  note c1 = A(1) and c2 = B(1)
  have c3: "orM (andM (Equals n a1 Float_t) (Equals n b1 Int_t)) (andM (Equals n b1 Float_t) (Equals n a1 Int_t)) h2
      = Inr ({a1, b1} = {Int_t, Float_t}, h2)"
  proof -
    have "orM (andM (Equals n a1 Float_t) (Equals n b1 Int_t)) (andM (Equals n b1 Float_t) (Equals n a1 Int_t)) h2
      = Inr (a1 = Float_t \<and> b1 = Int_t \<or> (b1 = Float_t \<and> a1 = Int_t), h2)"
      by (intro pure_orM pure_andM A B)
    moreover have "(a1 = Float_t \<and> b1 = Int_t \<or> (b1 = Float_t \<and> a1 = Int_t)) = ({a1, b1} = {Int_t, Float_t})"
      by (auto simp: doubleton_eq_iff builtin_defs)
    ultimately show ?thesis by simp
  qed
  have c4: "orM (andM (Equals n a1 String_t) (Equals n b1 Int_t)) (orM (andM (Equals n b1 String_t) (Equals n a1 Int_t)) (orM (andM (Equals n a1 String_t) (Equals n b1 Float_t)) (andM (Equals n b1 String_t) (Equals n a1 Float_t)))) h2
      = Inr ({a1, b1} = {Int_t, String_t} \<or> {a1, b1} = {Float_t, String_t}, h2)"
  proof -
    have "orM (andM (Equals n a1 String_t) (Equals n b1 Int_t)) (orM (andM (Equals n b1 String_t) (Equals n a1 Int_t)) (orM (andM (Equals n a1 String_t) (Equals n b1 Float_t)) (andM (Equals n b1 String_t) (Equals n a1 Float_t)))) h2
      = Inr (a1 = String_t \<and> b1 = Int_t \<or> (b1 = String_t \<and> a1 = Int_t \<or> (a1 = String_t \<and> b1 = Float_t \<or> (b1 = String_t \<and> a1 = Float_t))), h2)"
      by (intro pure_orM pure_andM A B)
    moreover have "(a1 = String_t \<and> b1 = Int_t \<or> (b1 = String_t \<and> a1 = Int_t \<or> (a1 = String_t \<and> b1 = Float_t \<or> (b1 = String_t \<and> a1 = Float_t)))) = ({a1, b1} = {Int_t, String_t} \<or> {a1, b1} = {Float_t, String_t})"
      by (auto simp: doubleton_eq_iff builtin_defs)
    ultimately show ?thesis by simp
  qed
  have c5: "orM (andM (Equals n a1 Pattern_t) (Equals n b1 Bool_t)) (andM (Equals n a1 Bool_t) (Equals n b1 Pattern_t)) h2
      = Inr ({a1, b1} = {Pattern_t, Bool_t}, h2)"
  proof -
    have "orM (andM (Equals n a1 Pattern_t) (Equals n b1 Bool_t)) (andM (Equals n a1 Bool_t) (Equals n b1 Pattern_t)) h2
      = Inr (a1 = Pattern_t \<and> b1 = Bool_t \<or> (a1 = Bool_t \<and> b1 = Pattern_t), h2)"
      by (intro pure_orM pure_andM A B)
    moreover have "(a1 = Pattern_t \<and> b1 = Bool_t \<or> (a1 = Bool_t \<and> b1 = Pattern_t)) = ({a1, b1} = {Pattern_t, Bool_t})"
      by (auto simp: doubleton_eq_iff builtin_defs)
    ultimately show ?thesis by simp
  qed
  have c6: "orM (andM (Equals n a1 Bool_t) (Equals n b1 Int_t)) (andM (Equals n a1 Int_t) (Equals n b1 Bool_t)) h2
      = Inr ({a1, b1} = {Int_t, Bool_t}, h2)"
  proof -
    have "orM (andM (Equals n a1 Bool_t) (Equals n b1 Int_t)) (andM (Equals n a1 Int_t) (Equals n b1 Bool_t)) h2
      = Inr (a1 = Bool_t \<and> b1 = Int_t \<or> (a1 = Int_t \<and> b1 = Bool_t), h2)"
      by (intro pure_orM pure_andM A B)
    moreover have "(a1 = Bool_t \<and> b1 = Int_t \<or> (a1 = Int_t \<and> b1 = Bool_t)) = ({a1, b1} = {Int_t, Bool_t})"
      by (auto simp: doubleton_eq_iff builtin_defs)
    ultimately show ?thesis by simp
  qed
  have c7: "orM (andM (Equals n a1 String_t) (Equals n b1 Pattern_t)) (andM (Equals n a1 Pattern_t) (Equals n b1 String_t)) h2
      = Inr ({a1, b1} = {String_t, Pattern_t}, h2)"
  proof -
    have "orM (andM (Equals n a1 String_t) (Equals n b1 Pattern_t)) (andM (Equals n a1 Pattern_t) (Equals n b1 String_t)) h2
      = Inr (a1 = String_t \<and> b1 = Pattern_t \<or> (a1 = Pattern_t \<and> b1 = String_t), h2)"
      by (intro pure_orM pure_andM A B)
    moreover have "(a1 = String_t \<and> b1 = Pattern_t \<or> (a1 = Pattern_t \<and> b1 = String_t)) = ({a1, b1} = {String_t, Pattern_t})"
      by (auto simp: doubleton_eq_iff builtin_defs)
    ultimately show ?thesis by simp
  qed
  have c8: "orM (andM (Equals n a1 Pattern_t) (Equals n b1 Int_t)) (andM (Equals n a1 Int_t) (Equals n b1 Pattern_t)) h2
      = Inr ({a1, b1} = {Int_t, Pattern_t}, h2)"
  proof -
    have "orM (andM (Equals n a1 Pattern_t) (Equals n b1 Int_t)) (andM (Equals n a1 Int_t) (Equals n b1 Pattern_t)) h2
      = Inr (a1 = Pattern_t \<and> b1 = Int_t \<or> (a1 = Int_t \<and> b1 = Pattern_t), h2)"
      by (intro pure_orM pure_andM A B)
    moreover have "(a1 = Pattern_t \<and> b1 = Int_t \<or> (a1 = Int_t \<and> b1 = Pattern_t)) = ({a1, b1} = {Int_t, Pattern_t})"
      by (auto simp: doubleton_eq_iff builtin_defs)
    ultimately show ?thesis by simp
  qed
  have if_app: "(if c then f else g) x = (if c then f x else g x)" for c and f g :: "'x \<Rightarrow> 'y" and x
    by simp
  show ?thesis
    unfolding LeastUpperBound_def lub_table_def
    by (simp add: seq_def if_app Ra Rb E0 c1 c2 c3 c4 c5 c6 c7 c8 ret_def)
qed


lemma atomic_simps [simp]:
  "atomic (Operator nm [])" "atomic (Variable p)" "atomic (TypeError k ex rc)"
  "atomic (Operator nm (x # xs)) = False"
  by (simp_all add: atomic_def)

lemma same_root_compressed: "compressed h h' \<Longrightarrow> same_root h' x y = same_root h x y"
  by (cases x; cases y) (simp_all add: same_root_def compressed_ID)

lemma lub_table_compressed:
  "compressed h h' \<Longrightarrow> lub_table h' a b a1 b1 = lub_table h a b a1 b1"
  by (simp add: lub_table_def same_root_compressed)

lemma LUB_atomic_fuel:
  assumes Ra: "Root n a h = Inr (a1, h1)" and Rb: "Root n b h1 = Inr (b1, h2)"
    and at: "atomic a1" "atomic b1" and n: "3 \<le> n"
  shows "LeastUpperBound n a b h = Inr (lub_table h a b a1 b1, h2) \<and> compressed h h2"
proof -
  from Root_sound[OF Ra] have ra: "resolves h a a1" and c1: "compressed h h1" by simp_all
  from Root_sound[OF Rb] have rb: "resolves h1 b b1" and c2: "compressed h1 h2" by simp_all
  have c: "compressed h h2" using c1 c2 by (rule compressed_trans)
  have ia: "is_root h2 a1"
    using resolves_is_root[OF ra] by (simp add: compressed_is_root[OF c])
  have ib: "is_root h2 b1"
    using resolves_is_root[OF rb] by (simp add: compressed_is_root[OF c2])
  obtain m where m: "n = Suc (Suc (Suc m))"
    using n by (metis Suc_le_D numeral_3_eq_3 Suc_le_mono)
  have "LeastUpperBound n a b h = Inr (lub_table h2 a b a1 b1, h2)"
    using Ra Rb at
  proof (rule LUB_cascade)
    show "Equals n a1 b1 h2 = Inr (same_root h2 a1 b1, h2)"
      unfolding m using ia ib at by (rule Equals_atomic)
    show "Equals n a1 (Operator nm []) h2 = Inr (same_root h2 a1 (Operator nm []), h2)" for nm
      unfolding m by (rule Equals_atomic) (simp_all add: ia at)
    show "Equals n b1 (Operator nm []) h2 = Inr (same_root h2 b1 (Operator nm []), h2)" for nm
      unfolding m by (rule Equals_atomic) (simp_all add: ib at)
  qed
  then show ?thesis using c by (simp add: lub_table_compressed)
qed

lemma LUB_nullary:
  "LeastUpperBound (Suc n) (Operator x []) (Operator y []) h =
     Inr (lub_table h (Operator x []) (Operator y []) (Operator x []) (Operator y []), h)"
  by (rule LUB_cascade[where ?h1.0 = h])
     (simp_all add: Equals_nullary same_root_def del: Equals.simps)

lemma LUB_atomic:
  assumes "resolves h a a1" "resolves h b b1" "atomic a1" "atomic b1"
  shows "\<exists>k h'. compressed h h' \<and>
           (\<forall>n\<ge>k. LeastUpperBound n a b h = Inr (lub_table h a b a1 b1, h'))"
proof -
  from Root_complete[OF assms(1)] obtain ka h1 where
    ka: "\<forall>n\<ge>ka. Root n a h = Inr (a1, h1)" by blast
  then have "Root ka a h = Inr (a1, h1)" by simp
  then have c1: "compressed h h1" using Root_sound by blast
  have "resolves h1 b b1" using c1 assms(2) by (rule compressed_resolves)
  from Root_complete[OF this] obtain kb h2 where
    kb: "\<forall>n\<ge>kb. Root n b h1 = Inr (b1, h2)" by blast
  have *: "LeastUpperBound n a b h = Inr (lub_table h a b a1 b1, h2) \<and> compressed h h2"
    if "max (max ka kb) 3 \<le> n" for n
    using that ka kb assms(3,4) by (intro LUB_atomic_fuel[where ?h1.0 = h1]) auto
  then have "compressed h h2" by blast
  then show ?thesis using * by blast
qed

lemma lub_table_variables:
  "lub_table h a b (Variable p) (Variable q) =
     (if ID (h p) = ID (h q) then Variable p else Variable q)"
  by (simp add: lub_table_def same_root_def isVariable_def)

lemma lub_table_idem:
  "atomic a1 \<Longrightarrow> lub_table h a a a1 a1 =
     (case a1 of TypeError k ex rc \<Rightarrow> TypeError (Some ErrTypeMismatch) (Some a) (Some a) | _ \<Rightarrow> a1)"
  by (cases a1) (auto simp: lub_table_def same_root_def isVariable_def builtin_defs)

lemma lub_table_commute:
  assumes at: "atomic a1" "atomic b1" and nv: "\<not> (isVariable a1 \<and> isVariable b1)"
  shows "lub_table h a b a1 b1 = lub_table h b a b1 a1 \<or>
         (lub_table h a b a1 b1 = TypeError (Some ErrTypeMismatch) (Some a) (Some b) \<and>
          lub_table h b a b1 a1 = TypeError (Some ErrTypeMismatch) (Some b) (Some a))"
proof -
  define T where "T e =
     (if {a1, b1} = {Int_t, Float_t} then Float_t
      else if {a1, b1} = {Int_t, String_t} \<or> {a1, b1} = {Float_t, String_t} then String_t
      else if {a1, b1} = {Pattern_t, Bool_t} then Bool_t
      else if {a1, b1} = {Int_t, Bool_t} then Int_t
      else if {a1, b1} = {String_t, Pattern_t} then Pattern_t
      else if {a1, b1} = {Int_t, Pattern_t} then Bool_t
      else e)" for e
  have sym: "same_root h b1 a1 = same_root h a1 b1"
    by (cases a1; cases b1) (auto simp: same_root_def)
  have eq: "same_root h a1 b1 \<Longrightarrow> a1 = b1"
    using at nv by (cases a1; cases b1) (auto simp: same_root_def atomic_def isVariable_def)
  have sw: "{b1, a1} = {a1, b1}" by (rule insert_commute)
  have l1: "lub_table h a b a1 b1 =
     (if same_root h a1 b1 then a1 else if isVariable a1 then b1 else if isVariable b1 then a1
      else if a1 = Undef_t then b1 else if b1 = Undef_t then a1
      else T (TypeError (Some ErrTypeMismatch) (Some a) (Some b)))"
    unfolding lub_table_def T_def by (rule refl)
  have l2: "lub_table h b a b1 a1 =
     (if same_root h a1 b1 then b1 else if isVariable b1 then a1 else if isVariable a1 then b1
      else if b1 = Undef_t then a1 else if a1 = Undef_t then b1
      else T (TypeError (Some ErrTypeMismatch) (Some b) (Some a)))"
    unfolding lub_table_def T_def sym sw by (rule refl)
  have T: "(\<forall>e. T e = e) \<or> (\<forall>e e'. T e = T e')"
    unfolding T_def by simp
  have U: "a1 = Undef_t \<Longrightarrow> b1 = Undef_t \<Longrightarrow> same_root h a1 b1"
    by (simp add: Undef_t_def same_root_def)
  show ?thesis
  proof (cases "same_root h a1 b1")
    case True
    show ?thesis unfolding l1 l2 using True eq by simp
  next
    case False
    show ?thesis unfolding l1 l2 using False nv U T by (auto; metis)
  qed
qed

text \<open>
  Counterexample to claim C1 as it is stated. The join of \<^verbatim>\<open>Undef\<close> with an unbound
  variable is \<^verbatim>\<open>Undef\<close> and not the variable: the test for a variable on either side
  comes before the test for \<^verbatim>\<open>Undef\<close>.
\<close>

theorem LeastUpperBound_Undef_Variable:
  "LeastUpperBound 3 Undef_t (Variable 0) fresh = Inr (Undef_t, fresh)"
proof -
  have 1: "Root 3 Undef_t fresh = Inr (Undef_t, fresh)" by (simp add: Undef_t_def)
  have 2: "Root 3 (Variable 0) fresh = Inr (Variable 0, fresh)" by (simp add: fresh_def)
  have "lub_table fresh Undef_t (Variable 0) Undef_t (Variable 0) = Undef_t"
    by (simp add: lub_table_def same_root_def isVariable_def Undef_t_def)
  then show ?thesis using LUB_atomic_fuel[OF 1 2] by (simp add: Undef_t_def)
qed

text \<open>
  Claim C1, amended. Let the roots \<open>a1\<close> of \<open>a\<close> and \<open>b1\<close> of \<open>b\<close> be variables, type
  errors or operators with no argument. Given a budget that covers the two chains,
  \<^verbatim>\<open>LeastUpperBound\<close> returns the entry of the table \<open>lub_table\<close>: \<open>a1\<close> when the roots
  are equal (two variables with one \<^verbatim>\<open>ID\<close>, two operators with one name); else the
  other root when one root is a variable; else the other root when one root is
  \<^verbatim>\<open>Undef\<close>; else the widening of the pair (\<^verbatim>\<open>Int\<close> with \<^verbatim>\<open>Float\<close> is \<^verbatim>\<open>Float\<close>,
  \<^verbatim>\<open>Int\<close> or \<^verbatim>\<open>Float\<close> with \<^verbatim>\<open>String\<close> is \<^verbatim>\<open>String\<close>, \<^verbatim>\<open>Pattern\<close> with \<^verbatim>\<open>Bool\<close> is
  \<^verbatim>\<open>Bool\<close>, \<^verbatim>\<open>Int\<close> with \<^verbatim>\<open>Bool\<close> is \<^verbatim>\<open>Int\<close>, \<^verbatim>\<open>String\<close> with \<^verbatim>\<open>Pattern\<close> is
  \<^verbatim>\<open>Pattern\<close>, \<^verbatim>\<open>Int\<close> with \<^verbatim>\<open>Pattern\<close> is \<^verbatim>\<open>Bool\<close>); and otherwise the type error
  \<^verbatim>\<open>ErrTypeMismatch\<close> holding \<open>a\<close> and \<open>b\<close>. It binds no variable: the heap it leaves
  differs from the one it started in by path compression only.
\<close>

theorem LeastUpperBound_table:
  assumes "resolves h a a1" "resolves h b b1" "atomic a1" "atomic b1"
  shows "\<exists>k h'. compressed h h' \<and>
           (\<forall>n\<ge>k. LeastUpperBound n a b h = Inr (lub_table h a b a1 b1, h'))"
  using assms by (rule LUB_atomic)

theorem LeastUpperBound_table_witness:
  "resolves bound_int (Variable 0) Int_t \<and> resolves bound_int Float_t Float_t \<and>
   atomic Int_t \<and> atomic Float_t \<and>
   (\<exists>k h'. compressed bound_int h' \<and>
      (\<forall>n\<ge>k. LeastUpperBound n (Variable 0) Float_t bound_int = Inr (Float_t, h')))"
proof -
  have 1: "resolves bound_int (Variable 0) Int_t"
    by (rule resolves.res_bound[where i = Int_t])
       (simp_all add: bound_int_def Int_t_def resolves.res_Operator)
  have 2: "resolves bound_int Float_t Float_t"
    by (simp add: Float_t_def resolves.res_Operator)
  have 3: "atomic Int_t" and 4: "atomic Float_t" by (simp_all add: builtin_defs)
  have "lub_table bound_int (Variable 0) Float_t Int_t Float_t = Float_t"
    by (simp add: lub_table_def same_root_def isVariable_def builtin_defs)
  then show ?thesis using LeastUpperBound_table[OF 1 2 3 4] 1 2 3 4 by simp
qed

text \<open>
  Counterexample to claim C6 as it is stated: on two unbound variables with different
  \<^verbatim>\<open>ID\<close>s, \<^verbatim>\<open>LeastUpperBound\<close> returns its second parameter.
\<close>

theorem LeastUpperBound_variables_not_commutative:
  "LeastUpperBound 3 (Variable 0) (Variable 1) fresh = Inr (Variable 1, fresh) \<and>
   LeastUpperBound 3 (Variable 1) (Variable 0) fresh = Inr (Variable 0, fresh)"
proof -
  have 0: "Root 3 (Variable 0) fresh = Inr (Variable 0, fresh)" by (simp add: fresh_def)
  have 1: "Root 3 (Variable 1) fresh = Inr (Variable 1, fresh)" by (simp add: fresh_def)
  have "lub_table fresh a b (Variable 0) (Variable 1) = Variable 1"
    "lub_table fresh a b (Variable 1) (Variable 0) = Variable 0" for a b
    by (simp_all add: lub_table_variables fresh_def)
  then show ?thesis using LUB_atomic_fuel[OF 0 1] LUB_atomic_fuel[OF 1 0] by simp
qed

text \<open>
  Outside the atomic roots: two operators of one name with one argument each make
  \<^verbatim>\<open>Equals\<close> read \<^verbatim>\<open>t2.Args[2]\<close>, so the join of such a type with itself panics.
\<close>

lemma LeastUpperBound_same_operator_panics:
  "LeastUpperBound 3 (Operator nm [x]) (Operator nm [y]) h = Inl IndexOutOfRange"
  by (simp add: LeastUpperBound_def seq_def ret_def fail_def numeral_3_eq_3)

text \<open>
  Claim C6, amended. Let the roots \<open>a1\<close> of \<open>a\<close> and \<open>b1\<close> of \<open>b\<close> be variables, type
  errors or operators with no argument, and the budget cover the chains. Unless both
  roots are variables, \<^verbatim>\<open>LeastUpperBound a b\<close> and \<^verbatim>\<open>LeastUpperBound b a\<close> return the same
  type, or both return the mismatch error, each holding its own parameters in its own
  order. When both roots are variables, each call returns its first root if the two
  \<^verbatim>\<open>ID\<close>s are equal and its second root otherwise. \<^verbatim>\<open>LeastUpperBound a a\<close> returns the
  root of \<open>a\<close>, except that for a root that is a type error it returns the mismatch of
  \<open>a\<close> with \<open>a\<close>.
\<close>

theorem LeastUpperBound_commutative_idempotent:
  assumes "resolves h a a1" "resolves h b b1" "atomic a1" "atomic b1"
  shows "\<exists>k r1 r2 r3 h1 h2 h3.
      (\<forall>n\<ge>k. LeastUpperBound n a b h = Inr (r1, h1) \<and>
              LeastUpperBound n b a h = Inr (r2, h2) \<and>
              LeastUpperBound n a a h = Inr (r3, h3)) \<and>
      (if isVariable a1 \<and> isVariable b1
       then (same_root h a1 b1 \<and> r1 = a1 \<and> r2 = b1) \<or>
            (\<not> same_root h a1 b1 \<and> r1 = b1 \<and> r2 = a1)
       else r1 = r2 \<or>
            (r1 = TypeError (Some ErrTypeMismatch) (Some a) (Some b) \<and>
             r2 = TypeError (Some ErrTypeMismatch) (Some b) (Some a))) \<and>
      r3 = (case a1 of
              TypeError e ex rc \<Rightarrow> TypeError (Some ErrTypeMismatch) (Some a) (Some a)
            | _ \<Rightarrow> a1)"
proof -
  from LUB_atomic[OF assms(1,2,3,4)] obtain k1 h1 where
    1: "\<forall>n\<ge>k1. LeastUpperBound n a b h = Inr (lub_table h a b a1 b1, h1)" by blast
  from LUB_atomic[OF assms(2,1,4,3)] obtain k2 h2 where
    2: "\<forall>n\<ge>k2. LeastUpperBound n b a h = Inr (lub_table h b a b1 a1, h2)" by blast
  from LUB_atomic[OF assms(1,1,3,3)] obtain k3 h3 where
    3: "\<forall>n\<ge>k3. LeastUpperBound n a a h = Inr (lub_table h a a a1 a1, h3)" by blast
  have A: "\<forall>n\<ge>max k1 (max k2 k3). LeastUpperBound n a b h = Inr (lub_table h a b a1 b1, h1) \<and>
              LeastUpperBound n b a h = Inr (lub_table h b a b1 a1, h2) \<and>
              LeastUpperBound n a a h = Inr (lub_table h a a a1 a1, h3)"
    using 1 2 3 by simp
  have B: "if isVariable a1 \<and> isVariable b1
       then (same_root h a1 b1 \<and> lub_table h a b a1 b1 = a1 \<and> lub_table h b a b1 a1 = b1) \<or>
            (\<not> same_root h a1 b1 \<and> lub_table h a b a1 b1 = b1 \<and> lub_table h b a b1 a1 = a1)
       else lub_table h a b a1 b1 = lub_table h b a b1 a1 \<or>
            (lub_table h a b a1 b1 = TypeError (Some ErrTypeMismatch) (Some a) (Some b) \<and>
             lub_table h b a b1 a1 = TypeError (Some ErrTypeMismatch) (Some b) (Some a))"
  proof (cases "isVariable a1 \<and> isVariable b1")
    case True
    then obtain p q where "a1 = Variable p" "b1 = Variable q"
      by (cases a1; cases b1) (simp_all add: isVariable_def)
    then show ?thesis by (auto simp: lub_table_variables same_root_def isVariable_def)
  next
    case False
    then show ?thesis using lub_table_commute[OF assms(3,4) False, of h a b] by auto
  qed
  show ?thesis
    using A B lub_table_idem[OF assms(3), of h a] by blast
qed

theorem LeastUpperBound_commutative_idempotent_witness:
  "resolves bound_int (Variable 0) Int_t \<and> resolves bound_int Pattern_t Pattern_t \<and>
   atomic Int_t \<and> atomic Pattern_t \<and>
   (\<exists>k h1 h2 h3. \<forall>n\<ge>k.
      LeastUpperBound n (Variable 0) Pattern_t bound_int = Inr (Bool_t, h1) \<and>
      LeastUpperBound n Pattern_t (Variable 0) bound_int = Inr (Bool_t, h2) \<and>
      LeastUpperBound n (Variable 0) (Variable 0) bound_int = Inr (Int_t, h3))"
proof -
  have 1: "resolves bound_int (Variable 0) Int_t"
    by (rule resolves.res_bound[where i = Int_t])
       (simp_all add: bound_int_def Int_t_def resolves.res_Operator)
  have 2: "resolves bound_int Pattern_t Pattern_t"
    by (simp add: Pattern_t_def resolves.res_Operator)
  have 3: "atomic Int_t" and 4: "atomic Pattern_t" by (simp_all add: builtin_defs)
  from LeastUpperBound_commutative_idempotent[OF 1 2 3 4]
  obtain k r1 r2 r3 h1 h2 h3 where
    L: "\<forall>n\<ge>k. LeastUpperBound n (Variable 0) Pattern_t bound_int = Inr (r1, h1) \<and>
              LeastUpperBound n Pattern_t (Variable 0) bound_int = Inr (r2, h2) \<and>
              LeastUpperBound n (Variable 0) (Variable 0) bound_int = Inr (r3, h3)"
    and r3: "r3 = Int_t" by (auto simp: isVariable_def builtin_defs)
  from LUB_atomic[OF 1 2 3 4] obtain k' h' where
    "\<forall>n\<ge>k'. LeastUpperBound n (Variable 0) Pattern_t bound_int
        = Inr (lub_table bound_int (Variable 0) Pattern_t Int_t Pattern_t, h')" by blast
  moreover have "lub_table bound_int (Variable 0) Pattern_t Int_t Pattern_t = Bool_t"
    by (simp add: lub_table_def same_root_def isVariable_def builtin_defs doubleton_eq_iff)
  ultimately have "LeastUpperBound (max k k') (Variable 0) Pattern_t bound_int = Inr (Bool_t, h')"
    by simp
  then have r1: "r1 = Bool_t" using L by (metis Pair_inject max.cobounded1 sum.inject(2))
  from LUB_atomic[OF 2 1 4 3] obtain k'' h'' where
    "\<forall>n\<ge>k''. LeastUpperBound n Pattern_t (Variable 0) bound_int
        = Inr (lub_table bound_int Pattern_t (Variable 0) Pattern_t Int_t, h'')" by blast
  moreover have "lub_table bound_int Pattern_t (Variable 0) Pattern_t Int_t = Bool_t"
    by (simp add: lub_table_def same_root_def isVariable_def builtin_defs doubleton_eq_iff)
  ultimately have "LeastUpperBound (max k k'') Pattern_t (Variable 0) bound_int = Inr (Bool_t, h'')"
    by simp
  then have r2: "r2 = Bool_t" using L by (metis Pair_inject max.cobounded1 sum.inject(2))
  show ?thesis using 1 2 3 4 L r1 r2 r3 by blast
qed

lemma rangeOnlyMatches_iff:
  "rangeOnlyMatches lo hi s = (\<forall>r. lo \<le> r \<and> r \<le> hi \<longrightarrow> ContainsRune s r)"
proof (induction lo hi s rule: rangeOnlyMatches.induct)
  case (1 r hi s)
  show ?case
  proof (cases "r \<le> hi")
    case False
    then show ?thesis by (subst rangeOnlyMatches.simps) auto
  next
    case True
    show ?thesis
    proof (cases "ContainsRune s r")
      case False
      then show ?thesis using True by (subst rangeOnlyMatches.simps) auto
    next
      case c: True
      have "rangeOnlyMatches r hi s = rangeOnlyMatches (r + 1) hi s"
        using True c by (subst rangeOnlyMatches.simps) simp
      also have "\<dots> = (\<forall>x. r + 1 \<le> x \<and> x \<le> hi \<longrightarrow> ContainsRune s x)"
        using 1 True c by simp
      also have "\<dots> = (\<forall>x. r \<le> x \<and> x \<le> hi \<longrightarrow> ContainsRune s x)"
      proof -
        have "\<And>x. r \<le> x \<longleftrightarrow> x = r \<or> r + 1 \<le> x" by auto
        then show ?thesis using c by metis
      qed
      finally show ?thesis .
    qed
  qed
qed

lemma classOnlyMatches_in_class:
  "classOnlyMatches rn cs = Inr True \<Longrightarrow> in_class rn r \<Longrightarrow> ContainsRune cs r"
  by (induction rn cs rule: classOnlyMatches.induct)
     (auto simp: rangeOnlyMatches_iff split: if_splits)

lemma onlyMatches_sound:
  "matches g s \<Longrightarrow> groupOnlyMatches g cs = Inr True \<Longrightarrow> (\<forall>r\<in>set s. ContainsRune cs r)"
  "matches_seq gs s \<Longrightarrow> subsOnlyMatch gs cs = Inr True \<Longrightarrow> (\<forall>r\<in>set s. ContainsRune cs r)"
  "matches_rep g k s \<Longrightarrow> groupOnlyMatches g cs = Inr True \<Longrightarrow> (\<forall>r\<in>set s. ContainsRune cs r)"
proof (induction rule: matches_matches_seq_matches_rep.inducts)
  case (m_CharClass rn r fl sub mn mx cp nm)
  then show ?case by (auto dest: classOnlyMatches_in_class)
next
  case (m_Alternate g s gs fl rn mn mx cp nm)
  have "subsOnlyMatch gs cs = Inr True \<Longrightarrow> g \<in> set gs \<Longrightarrow> groupOnlyMatches g cs = Inr True" for gs
    by (induction gs) (auto split: sum.splits if_splits)
  then show ?case using m_Alternate by auto
next
  case (seq_Cons g s gs t)
  then show ?case by (auto split: sum.splits if_splits)
qed (auto split: if_splits)

lemma classOnlyMatches_total:
  "even (length rn) \<Longrightarrow> \<exists>b. classOnlyMatches rn cs = Inr b"
  by (induction rn cs rule: classOnlyMatches.induct) auto

lemma groupOnlyMatches_total:
  "well_formed g \<Longrightarrow> \<exists>b. groupOnlyMatches g cs = Inr b"
  "(\<forall>g\<in>set gs. well_formed g) \<Longrightarrow> \<exists>b. subsOnlyMatch gs cs = Inr b"
proof (induction g cs and gs cs rule: groupOnlyMatches_subsOnlyMatch.induct)
  case (1 op fl sub rn mn mx cp nm s)
  then show ?case
    by (cases sub) (auto simp: classOnlyMatches_total)
next
  case (3 g gs s)
  then show ?case by (auto split: sum.splits)
qed auto

lemma inferGroupType_rule:
  assumes "well_formed g"
  shows "inferGroupType str g = Inr (infer_rule str g)"
proof -
  obtain b1 b2 b3 where b:
    "groupOnlyMatches g ''+-'' = Inr b1"
    "groupOnlyMatches g ''+-0123456789'' = Inr b2"
    "groupOnlyMatches g ''+-0123456789.eE'' = Inr b3"
    using groupOnlyMatches_total(1)[OF assms] by metis
  show ?thesis
    unfolding inferGroupType_def infer_rule_def b
    by (cases b1; cases b2; cases b3) (simp_all add: not_less)
qed

lemma inferGroupType_range:
  "inferGroupType str g = Inr t \<Longrightarrow> t = String_t \<or> t = Int_t \<or> t = Float_t"
  unfolding inferGroupType_def
  by (auto split: sum.splits bool.splits if_splits)

lemma inferGroupType_Int:
  "inferGroupType str g = Inr Int_t \<Longrightarrow> groupOnlyMatches g ''+-0123456789'' = Inr True"
  unfolding inferGroupType_def
  by (auto split: sum.splits bool.splits if_splits simp: builtin_defs)

lemma inferGroupType_Float:
  "inferGroupType str g = Inr Float_t \<Longrightarrow> groupOnlyMatches g ''+-0123456789.eE'' = Inr True"
  unfolding inferGroupType_def
  by (auto split: sum.splits bool.splits if_splits simp: builtin_defs)

lemma LUB_zero:
  "LeastUpperBound 0 (Operator x xs) (Operator y ys) h = Inl OutOfFuel"
  by (simp add: LeastUpperBound_def seq_def fail_def)

lemma LUB_join2:
  assumes "acc \<in> {Undef_t, String_t, Int_t, Float_t}" "t \<in> {String_t, Int_t, Float_t}"
  shows "LeastUpperBound (Suc n) acc t h = Inr (join2 t acc, h)"
  using assms
  by (elim insertE emptyE;
      simp add: builtin_defs LUB_nullary lub_table_def join2_def same_root_def isVariable_def
        doubleton_eq_iff)


lemma join2_range:
  "acc \<in> {Undef_t, String_t, Int_t, Float_t} \<Longrightarrow> t \<in> {String_t, Int_t, Float_t}
   \<Longrightarrow> join2 t acc \<in> {String_t, Int_t, Float_t}"
  by (simp add: join2_def)

lemma inferAlternate_result:
  "inferAlternate str n bs acc h = Inr (t, h') \<Longrightarrow> acc \<in> {Undef_t, String_t, Int_t, Float_t}
   \<Longrightarrow> h' = h \<and>
       (\<exists>ts. list_all2 (\<lambda>b t. inferGroupType str b = Inr t) bs ts \<and> t = fold join2 ts acc)"
proof (induction bs arbitrary: acc)
  case Nil
  then show ?case by (simp add: ret_def)
next
  case (Cons b bs)
  from Cons.prems(1) obtain tb where tb: "inferGroupType str b = Inr tb"
    by (auto simp: fail_def split: sum.splits)
  then have r: "tb \<in> {String_t, Int_t, Float_t}" using inferGroupType_range by blast
  obtain m where n: "n = Suc m"
  proof (cases n)
    case 0
    then have False using Cons.prems tb r
      by (auto simp: seq_def builtin_defs LUB_zero)
    then show ?thesis ..
  qed
  have L: "LeastUpperBound n acc tb h = Inr (join2 tb acc, h)"
    unfolding n using Cons.prems(2) r by (rule LUB_join2)
  have "inferAlternate str n bs (join2 tb acc) h = Inr (t, h')"
    using Cons.prems(1) tb L by (simp add: seq_def)
  moreover have "join2 tb acc \<in> {Undef_t, String_t, Int_t, Float_t}"
    using join2_range[OF Cons.prems(2) r] by auto
  ultimately have "h' = h \<and>
       (\<exists>ts. list_all2 (\<lambda>b t. inferGroupType str b = Inr t) bs ts \<and>
             t = fold join2 ts (join2 tb acc))"
    by (rule Cons.IH)
  then obtain ts where "h' = h" "list_all2 (\<lambda>b t. inferGroupType str b = Inr t) bs ts"
    "t = fold join2 ts (join2 tb acc)" by blast
  then have "list_all2 (\<lambda>b t. inferGroupType str b = Inr t) (b # bs) (tb # ts) \<and>
      t = fold join2 (tb # ts) acc" using tb by simp
  then show ?case using \<open>h' = h\<close> by blast
qed


lemma scalar_distinct:
  "Undef_t \<noteq> String_t" "Undef_t \<noteq> Int_t" "Undef_t \<noteq> Float_t"
  "String_t \<noteq> Int_t" "String_t \<noteq> Float_t" "Int_t \<noteq> Float_t"
  "String_t \<noteq> Undef_t" "Int_t \<noteq> Undef_t" "Float_t \<noteq> Undef_t"
  "Int_t \<noteq> String_t" "Float_t \<noteq> String_t" "Float_t \<noteq> Int_t"
  by (simp_all add: builtin_defs)

lemma fold_join2:
  "set ts \<subseteq> {String_t, Int_t, Float_t} \<Longrightarrow> acc \<in> {Undef_t, String_t, Int_t, Float_t}
   \<Longrightarrow> fold join2 ts acc = lub_types (if acc = Undef_t then ts else acc # ts)"
proof (induction ts arbitrary: acc)
  case Nil
  then show ?case by (auto simp: lub_types_def scalar_distinct)
next
  case (Cons t ts)
  then have t: "t \<in> {String_t, Int_t, Float_t}" and ts: "set ts \<subseteq> {String_t, Int_t, Float_t}"
    by auto
  have j: "join2 t acc \<in> {String_t, Int_t, Float_t}" using join2_range[OF Cons.prems(2) t] .
  then have "fold join2 ts (join2 t acc) = lub_types (join2 t acc # ts)"
    using Cons.IH[OF ts, of "join2 t acc"] by (auto simp: scalar_distinct)
  moreover have "lub_types (join2 t acc # ts) = lub_types (if acc = Undef_t then t # ts else acc # t # ts)"
    using t Cons.prems(2)
    by (elim insertE emptyE; simp add: join2_def lub_types_def scalar_distinct)
  ultimately show ?case by simp
qed

lemma fold_join2_Undef:
  "set ts \<subseteq> {String_t, Int_t, Float_t} \<Longrightarrow> fold join2 ts Undef_t = lub_types ts"
  by (simp add: fold_join2)


lemma ContainsRune_digits_floats:
  "ContainsRune ''+-0123456789'' r \<Longrightarrow> ContainsRune ''+-0123456789.eE'' r"
  by (auto simp: ContainsRune_def)

lemma matches_Alternate:
  assumes "matches g s" "Op g = OpAlternate"
  shows "\<exists>b\<in>set (Sub g). matches b s"
  using assms by (cases rule: matches.cases) auto


lemma range_digits: "rangeOnlyMatches 48 57 ''+-0123456789'' = True"
  by code_simp

lemma range_signs: "rangeOnlyMatches 48 57 ''+-'' = False"
  by code_simp

lemma infer_rule_digits:
  "infer_rule Regexp_String (plus_re (char_class [48, 57])) = Int_t"
  by code_simp



lemma inferGroupType_sound:
  assumes T: "inferGroupType str g = Inr t" and M: "matches g s"
  shows "(t = Int_t \<longrightarrow> (\<forall>r\<in>set s. ContainsRune ''+-0123456789'' r)) \<and>
         (t = Float_t \<longrightarrow> (\<forall>r\<in>set s. ContainsRune ''+-0123456789.eE'' r))"
proof (intro conjI impI)
  assume "t = Int_t"
  then have "groupOnlyMatches g ''+-0123456789'' = Inr True"
    using T by (simp add: inferGroupType_Int)
  with M show "\<forall>r\<in>set s. ContainsRune ''+-0123456789'' r" by (rule onlyMatches_sound(1))
next
  assume "t = Float_t"
  then have "groupOnlyMatches g ''+-0123456789.eE'' = Inr True"
    using T by (simp add: inferGroupType_Float)
  with M show "\<forall>r\<in>set s. ContainsRune ''+-0123456789.eE'' r" by (rule onlyMatches_sound(1))
qed

lemma list_all2_witness:
  "list_all2 P xs ys \<Longrightarrow> x \<in> set xs \<Longrightarrow> \<exists>y\<in>set ys. P x y"
  by (induction rule: list_all2_induct) auto

lemma list_all2_witness':
  "list_all2 P xs ys \<Longrightarrow> y \<in> set ys \<Longrightarrow> \<exists>x\<in>set xs. P x y"
  by (induction rule: list_all2_induct) auto

text \<open>
  Claim C3, amended. If \<^verbatim>\<open>InferCaprefType\<close> returns \<^verbatim>\<open>Int\<close> for a group, every string the
  group matches consists of signs and digits only; if it returns \<^verbatim>\<open>Float\<close>, every such
  string consists of signs, digits, dots and the letters e and E only.
\<close>

theorem capref_characters:
  assumes G: "getCaptureGroup re cg = Inr (Some g)"
    and I: "InferCaprefType str n re cg h = Inr (t, h')"
    and M: "matches g s"
  shows "(t = Int_t \<longrightarrow> (\<forall>r\<in>set s. ContainsRune ''+-0123456789'' r)) \<and>
         (t = Float_t \<longrightarrow> (\<forall>r\<in>set s. ContainsRune ''+-0123456789.eE'' r))"
proof (cases "Op g = OpAlternate")
  case False
  then have T: "inferGroupType str g = Inr t"
    using G I by (auto simp: InferCaprefType_def ret_def fail_def split: sum.splits)
  then show ?thesis using M by (rule inferGroupType_sound)
next
  case True
  then have "inferAlternate str n (Sub g) Undef_t h = Inr (t, h')"
    using G I by (simp add: InferCaprefType_def)
  then obtain ts where ts: "list_all2 (\<lambda>b t. inferGroupType str b = Inr t) (Sub g) ts"
    and t: "t = fold join2 ts Undef_t"
    using inferAlternate_result[of str n "Sub g" Undef_t h t h'] by auto
  have sub: "set ts \<subseteq> {String_t, Int_t, Float_t}"
  proof
    fix x assume "x \<in> set ts"
    then obtain b where "inferGroupType str b = Inr x"
      using list_all2_witness'[OF ts] by blast
    then show "x \<in> {String_t, Int_t, Float_t}" using inferGroupType_range[of str b x] by simp
  qed
  then have t': "t = lub_types ts" using t by (simp add: fold_join2_Undef)
  from matches_Alternate[OF M True] obtain b where b: "b \<in> set (Sub g)" "matches b s" by blast
  then obtain tb where tb: "tb \<in> set ts" "inferGroupType str b = Inr tb"
    using list_all2_witness[OF ts] by blast
  have tb3: "tb = String_t \<or> tb = Int_t \<or> tb = Float_t" using sub tb(1) by auto
  note S = inferGroupType_sound[OF tb(2) b(2)]
  have i: "tb = Int_t" if "t = Int_t"
    using that t' tb(1) tb3 by (auto simp: lub_types_def scalar_distinct split: if_splits)
  have f: "tb = Int_t \<or> tb = Float_t" if "t = Float_t"
    using that t' tb(1) tb3 by (auto simp: lub_types_def scalar_distinct split: if_splits)
  show ?thesis
  proof (intro conjI impI)
    assume "t = Int_t"
    then show "\<forall>r\<in>set s. ContainsRune ''+-0123456789'' r" using i S by simp
  next
    assume "t = Float_t"
    then have "tb = Int_t \<or> tb = Float_t" by (rule f)
    then show "\<forall>r\<in>set s. ContainsRune ''+-0123456789.eE'' r"
      using S ContainsRune_digits_floats by blast
  qed
qed

lemma matches_digits: "matches (plus_re (char_class [48, 57])) [52, 50]"
proof -
  have c: "matches (char_class [48, 57]) [r]" if "48 \<le> r" "r \<le> 57" for r
    unfolding char_class_def using that by (intro matches_matches_seq_matches_rep.m_CharClass) simp
  have c50: "matches (char_class [48, 57]) [50]" and c52: "matches (char_class [48, 57]) [52]"
    by (simp_all add: c)
  have r0: "matches_rep (char_class [48, 57]) 0 []"
    by (rule matches_matches_seq_matches_rep.rep_0)
  have r1: "matches_rep (char_class [48, 57]) (Suc 0) [50]"
    using matches_matches_seq_matches_rep.rep_Suc[OF c50 r0] by simp
  have r2: "matches_rep (char_class [48, 57]) (Suc (Suc 0)) [52, 50]"
    using matches_matches_seq_matches_rep.rep_Suc[OF c52 r1] by simp
  show ?thesis
    unfolding plus_re_def by (rule matches_matches_seq_matches_rep.m_Plus[OF r2]) simp
qed

theorem capref_characters_witness:
  "getCaptureGroup (capture 1 (plus_re (char_class [48, 57]))) 1
     = Inr (Some (plus_re (char_class [48, 57]))) \<and>
   InferCaprefType Regexp_String 0 (capture 1 (plus_re (char_class [48, 57]))) 1 fresh
     = Inr (Int_t, fresh) \<and>
   matches (plus_re (char_class [48, 57])) [52, 50] \<and>
   ContainsRune ''+-0123456789'' 52 \<and> ContainsRune ''+-0123456789'' 50"
proof -
  have 1: "getCaptureGroup (capture 1 (plus_re (char_class [48, 57]))) 1
     = Inr (Some (plus_re (char_class [48, 57])))" by (simp add: capture_def)
  have w: "well_formed (plus_re (char_class [48, 57]))"
    "Op (plus_re (char_class [48, 57])) \<noteq> OpAlternate"
    by (simp_all add: plus_re_def char_class_def)
  have "inferGroupType Regexp_String (plus_re (char_class [48, 57])) = Inr Int_t"
    using w by (simp add: inferGroupType_rule infer_rule_digits)
  then have 2: "InferCaprefType Regexp_String 0 (capture 1 (plus_re (char_class [48, 57]))) 1 fresh
     = Inr (Int_t, fresh)"
    using 1 w by (simp add: InferCaprefType_def ret_def)
  show ?thesis
    using capref_characters[OF 1 2 matches_digits] 1 2 matches_digits by simp
qed

text \<open>
  Counterexample to claim C3 as it is stated. The group of \<^verbatim>\<open>(5-)\<close> is inferred to be
  an \<^verbatim>\<open>Int\<close>; it matches the string \<^verbatim>\<open>5-\<close>, which is not a base-10 integer.
\<close>

theorem capref_Int_not_integer:
  "getCaptureGroup (capture 1 (lit ''5-'')) 1 = Inr (Some (lit ''5-'')) \<and>
   InferCaprefType Regexp_String 0 (capture 1 (lit ''5-'')) 1 fresh = Inr (Int_t, fresh) \<and>
   matches (lit ''5-'') [53, 45] \<and>
   \<not> parses_int [53, 45]"
proof -
  have 1: "getCaptureGroup (capture 1 (lit ''5-'')) 1 = Inr (Some (lit ''5-''))"
    by (simp add: capture_def)
  have w: "well_formed (lit ''5-'')" "Op (lit ''5-'') \<noteq> OpAlternate" by (simp_all add: lit_def)
  have "infer_rule Regexp_String (lit ''5-'') = Int_t" by code_simp
  then have "inferGroupType Regexp_String (lit ''5-'') = Inr Int_t"
    using w by (simp add: inferGroupType_rule)
  then have 2: "InferCaprefType Regexp_String 0 (capture 1 (lit ''5-'')) 1 fresh = Inr (Int_t, fresh)"
    using 1 w by (simp add: InferCaprefType_def ret_def)
  have 3: "matches (lit ''5-'') [53, 45]"
    unfolding lit_def using matches_matches_seq_matches_rep.m_Literal[of 0 "[]" "[53, 45]"]
    by simp
  have 4: "\<not> parses_int [53, 45]" by (simp add: parses_int_def)
  show ?thesis using 1 2 3 4 by blast
qed

subsection \<open>Logical operators in the grammar\<close>

lemma primary_is_bitwise: "primary_expr ts n \<Longrightarrow> bitwise_expr ts n"
  by (intro bitwise_expr_1 rel_expr_1 shift_expr_1 additive_expr_1 multiplicative_expr_1
      unary_expr_1 postfix_expr_1)

lemma ident_bitwise: "bitwise_expr [ID_tok x] (ident x)"
  unfolding ident_def
  by (intro primary_is_bitwise primary_expr_1 indexed_expr_1 id_expr_1)

lemma regex_pattern_tokens: "regex_pattern ts n \<Longrightarrow> AND \<notin> set ts \<and> OR \<notin> set ts"
  by (induction rule: regex_pattern.induct) simp

lemma id_expr_tokens: "id_expr ts n \<Longrightarrow> AND \<notin> set ts \<and> OR \<notin> set ts"
  by (induction rule: id_expr.induct) simp

lemma concat_expr_tokens: "concat_expr ts n \<Longrightarrow> AND \<notin> set ts \<and> OR \<notin> set ts"
  by (induction rule: concat_expr.induct)
     (auto simp: opt_nl_def dest: regex_pattern_tokens id_expr_tokens)

lemma pattern_expr_tokens: "pattern_expr ts n \<Longrightarrow> AND \<notin> set ts \<and> OR \<notin> set ts"
  by (induction rule: pattern_expr.induct) (auto dest: concat_expr_tokens)

lemma implicit_match_expr_tokens:
  "implicit_match_expr ts n \<Longrightarrow> AND \<notin> set ts \<and> OR \<notin> set ts"
  by (induction rule: implicit_match_expr.induct) (auto dest: pattern_expr_tokens)

text \<open>Below logical_expr, a logical operator token occurs only between parentheses.\<close>

lemma logical_tokens_in_parentheses:
  "logical_expr ts n \<Longrightarrow> True"
  "bitwise_expr ts n \<Longrightarrow> LPAREN \<notin> set ts \<Longrightarrow> AND \<notin> set ts \<and> OR \<notin> set ts"
  "rel_expr ts n \<Longrightarrow> LPAREN \<notin> set ts \<Longrightarrow> AND \<notin> set ts \<and> OR \<notin> set ts"
  "shift_expr ts n \<Longrightarrow> LPAREN \<notin> set ts \<Longrightarrow> AND \<notin> set ts \<and> OR \<notin> set ts"
  "additive_expr ts n \<Longrightarrow> LPAREN \<notin> set ts \<Longrightarrow> AND \<notin> set ts \<and> OR \<notin> set ts"
  "match_expr ts n \<Longrightarrow> LPAREN \<notin> set ts \<Longrightarrow> AND \<notin> set ts \<and> OR \<notin> set ts"
  "multiplicative_expr ts n \<Longrightarrow> LPAREN \<notin> set ts \<Longrightarrow> AND \<notin> set ts \<and> OR \<notin> set ts"
  "unary_expr ts n \<Longrightarrow> LPAREN \<notin> set ts \<Longrightarrow> AND \<notin> set ts \<and> OR \<notin> set ts"
  "postfix_expr ts n \<Longrightarrow> LPAREN \<notin> set ts \<Longrightarrow> AND \<notin> set ts \<and> OR \<notin> set ts"
  "primary_expr ts n \<Longrightarrow> LPAREN \<notin> set ts \<Longrightarrow> AND \<notin> set ts \<and> OR \<notin> set ts"
  "indexed_expr ts n \<Longrightarrow> LPAREN \<notin> set ts \<Longrightarrow> AND \<notin> set ts \<and> OR \<notin> set ts"
  "arg_expr_list ts n \<Longrightarrow> LPAREN \<notin> set ts \<Longrightarrow> AND \<notin> set ts \<and> OR \<notin> set ts"
proof (induction rule: logical_expr_bitwise_expr_rel_expr_shift_expr_additive_expr_match_expr_multiplicative_expr_unary_expr_postfix_expr_primary_expr_indexed_expr_arg_expr_list.inducts)
qed (auto simp: opt_nl_def bitwise_op_def rel_op_def shift_op_def add_op_def mul_op_def
      match_op_def postfix_op_def
      dest: implicit_match_expr_tokens pattern_expr_tokens id_expr_tokens)


lemma enclosed_append: "enclosed xs \<Longrightarrow> enclosed ys \<Longrightarrow> enclosed (xs @ ys)"
  by (induction xs) auto

lemma enclosed_suffix: "enclosed (xs @ ys) \<Longrightarrow> enclosed ys"
  by (induction xs) auto

lemma enclosed_RPAREN: "enclosed (xs @ [RPAREN])"
  by (induction xs) (auto simp: logical_op_def)

lemma enclosed_no_logical: "\<forall>t\<in>set ts. \<not> logical_op t \<Longrightarrow> enclosed ts"
  by (induction ts) auto

lemma not_logical [simp]:
  "bitwise_op t \<Longrightarrow> \<not> logical_op t" "rel_op t \<Longrightarrow> \<not> logical_op t"
  "shift_op t \<Longrightarrow> \<not> logical_op t" "add_op t \<Longrightarrow> \<not> logical_op t"
  "mul_op t \<Longrightarrow> \<not> logical_op t" "match_op t \<Longrightarrow> \<not> logical_op t"
  "postfix_op t \<Longrightarrow> \<not> logical_op t"
  by (auto simp: logical_op_def bitwise_op_def rel_op_def shift_op_def add_op_def mul_op_def
      match_op_def postfix_op_def)

lemma enclosed_binary:
  "enclosed ts1 \<Longrightarrow> \<not> logical_op op \<Longrightarrow> opt_nl nl \<Longrightarrow> enclosed ts2
   \<Longrightarrow> enclosed (ts1 @ op # nl @ ts2)"
  using enclosed_append[of ts1 "op # nl @ ts2"] enclosed_append[of nl ts2]
  by (auto simp: opt_nl_def logical_op_def)

lemma pattern_expr_enclosed: "pattern_expr ts n \<Longrightarrow> enclosed ts"
  by (rule enclosed_no_logical) (auto simp: logical_op_def dest: pattern_expr_tokens)

lemma implicit_match_expr_enclosed: "implicit_match_expr ts n \<Longrightarrow> enclosed ts"
  by (rule enclosed_no_logical) (auto simp: logical_op_def dest: implicit_match_expr_tokens)

lemma id_expr_enclosed: "id_expr ts n \<Longrightarrow> enclosed ts"
  by (rule enclosed_no_logical) (auto simp: logical_op_def dest: id_expr_tokens)

lemma below_logical_enclosed:
  "logical_expr ts n \<Longrightarrow> True"
  "bitwise_expr ts n \<Longrightarrow> enclosed ts"
  "rel_expr ts n \<Longrightarrow> enclosed ts"
  "shift_expr ts n \<Longrightarrow> enclosed ts"
  "additive_expr ts n \<Longrightarrow> enclosed ts"
  "match_expr ts n \<Longrightarrow> enclosed ts"
  "multiplicative_expr ts n \<Longrightarrow> enclosed ts"
  "unary_expr ts n \<Longrightarrow> enclosed ts"
  "postfix_expr ts n \<Longrightarrow> enclosed ts"
  "primary_expr ts n \<Longrightarrow> enclosed ts"
  "indexed_expr ts n \<Longrightarrow> enclosed ts"
  "arg_expr_list ts n \<Longrightarrow> enclosed ts"
proof (induction rule: logical_expr_bitwise_expr_rel_expr_shift_expr_additive_expr_match_expr_multiplicative_expr_unary_expr_postfix_expr_primary_expr_indexed_expr_arg_expr_list.inducts)
  case (primary_expr_3 ts args f)
  show ?case using enclosed_RPAREN[of "[BUILTIN f, LPAREN] @ ts"] by simp
next
  case (primary_expr_7 ts n)
  show ?case using enclosed_RPAREN[of "[LPAREN] @ ts"] by simp
next
  case (indexed_expr_2 ts1 l xs ts2 ys)
  then show ?case
    by (intro enclosed_append) (auto simp: logical_op_def)
next
  case (arg_expr_list_2 ts1 xs ts2 n)
  then show ?case
    by (intro enclosed_append) (auto simp: logical_op_def)
next
  case (postfix_expr_2 ts n op)
  then show ?case
    by (intro enclosed_append) auto
next
  case (bitwise_expr_2 ts1 l op nl ts2 r)
  then show ?case by (simp add: enclosed_binary pattern_expr_enclosed)
next
  case (rel_expr_2 ts1 l op nl ts2 r)
  then show ?case by (simp add: enclosed_binary pattern_expr_enclosed)
next
  case (shift_expr_2 ts1 l op nl ts2 r)
  then show ?case by (simp add: enclosed_binary pattern_expr_enclosed)
next
  case (additive_expr_2 ts1 l op nl ts2 r)
  then show ?case by (simp add: enclosed_binary pattern_expr_enclosed)
next
  case (match_expr_2 ts1 l op nl ts2 r)
  then show ?case by (simp add: enclosed_binary pattern_expr_enclosed)
next
  case (match_expr_3 ts1 l op nl ts2 r)
  then show ?case by (simp add: enclosed_binary pattern_expr_enclosed)
next
  case (multiplicative_expr_2 ts1 l op nl ts2 r)
  then show ?case by (simp add: enclosed_binary pattern_expr_enclosed)
qed (auto simp: logical_op_def intro: implicit_match_expr_enclosed id_expr_enclosed)


lemma last_operator_split:
  assumes "L @ k # C = ts1 @ op # R" "logical_op k" "logical_op op"
    "\<forall>t\<in>set C. \<not> logical_op t \<and> t \<noteq> RPAREN" "enclosed R"
  shows "ts1 = L \<and> op = k \<and> R = C"
  using assms(1)
proof (induction L arbitrary: ts1)
  case Nil
  show ?case
  proof (cases ts1)
    case Nil
    then show ?thesis using Nil.prems by simp
  next
    case (Cons x xs)
    then have "op \<in> set C" using Nil.prems by auto
    then show ?thesis using assms(3,4) by blast
  qed
next
  case (Cons y L')
  show ?case
  proof (cases ts1)
    case Nil
    then have "R = L' @ k # C" using Cons.prems by simp
    then have "enclosed (k # C)" using assms(5) enclosed_suffix by blast
    then have "RPAREN \<in> set C" using assms(2) by simp
    then show ?thesis using assms(4) by blast
  next
    case (Cons x xs)
    then have "L' @ k # C = xs @ op # R" "x = y" using Cons.prems by simp_all
    then show ?thesis using Cons.IH[of xs] Cons by simp
  qed
qed

lemma logical_root_last:
  assumes D: "logical_expr (L @ k # C) n" and k: "logical_op k"
    and C: "\<forall>t\<in>set C. \<not> logical_op t \<and> t \<noteq> RPAREN"
  shows "\<exists>l r nl ts2. n = BinaryExpr l r k \<and> logical_expr L l \<and> opt_nl nl \<and> C = nl @ ts2 \<and>
           (bitwise_expr ts2 r \<or> match_expr ts2 r)"
proof -
  have no: "\<not> enclosed (L @ k # C)"
  proof
    assume "enclosed (L @ k # C)"
    then have "enclosed (k # C)" by (rule enclosed_suffix)
    then show False using k C by auto
  qed
  have nl: "enclosed (nl @ ts2)" if "opt_nl nl" "enclosed ts2" for nl ts2
    using that by (auto simp: opt_nl_def logical_op_def)
  from D show ?thesis
  proof (cases rule: logical_expr.cases)
    case logical_expr_1
    then show ?thesis using below_logical_enclosed(2) no by blast
  next
    case logical_expr_2
    then show ?thesis using below_logical_enclosed(6) no by blast
  next
    case (logical_expr_3 ts1 l op nl' ts2 r)
    have "enclosed (nl' @ ts2)"
      using logical_expr_3 below_logical_enclosed(2) by (intro nl) auto
    then have "ts1 = L \<and> op = k \<and> nl' @ ts2 = C"
      using last_operator_split[of L k C ts1 op "nl' @ ts2"] logical_expr_3 k C by simp
    then show ?thesis using logical_expr_3 by blast
  next
    case (logical_expr_4 ts1 l op nl' ts2 r)
    have "enclosed (nl' @ ts2)"
      using logical_expr_4 below_logical_enclosed(6) by (intro nl) auto
    then have "ts1 = L \<and> op = k \<and> nl' @ ts2 = C"
      using last_operator_split[of L k C ts1 op "nl' @ ts2"] logical_expr_4 k C by simp
    then show ?thesis using logical_expr_4 by blast
  qed
qed


text \<open>
  Counterexample to claim C8 as it is stated. For \<^verbatim>\<open>a || b && c\<close> the grammar derives the
  tree whose root is \<^verbatim>\<open>&&\<close>, with \<^verbatim>\<open>a || b\<close> as its left operand; it does not derive the
  tree in which \<^verbatim>\<open>b && c\<close> is an operand of \<^verbatim>\<open>||\<close>.
\<close>

theorem or_and_parse:
  "logical_expr [ID_tok ''a'', OR, ID_tok ''b'', AND, ID_tok ''c'']
     (BinaryExpr (BinaryExpr (ident ''a'') (ident ''b'') OR) (ident ''c'') AND) \<and>
   \<not> logical_expr [ID_tok ''a'', OR, ID_tok ''b'', AND, ID_tok ''c'']
     (BinaryExpr (ident ''a'') (BinaryExpr (ident ''b'') (ident ''c'') AND) OR)"
proof
  have a: "logical_expr [ID_tok ''a''] (ident ''a'')"
    by (intro logical_expr_1 ident_bitwise)
  have "logical_expr ([ID_tok ''a''] @ [OR] @ [] @ [ID_tok ''b''])
          (BinaryExpr (ident ''a'') (ident ''b'') OR)"
    using a by (rule logical_expr_3) (simp_all add: logical_op_def opt_nl_def ident_bitwise)
  then have "logical_expr (([ID_tok ''a''] @ [OR] @ [] @ [ID_tok ''b'']) @ [AND] @ [] @ [ID_tok ''c''])
          (BinaryExpr (BinaryExpr (ident ''a'') (ident ''b'') OR) (ident ''c'') AND)"
    by (rule logical_expr_3) (simp_all add: logical_op_def opt_nl_def ident_bitwise)
  then show "logical_expr [ID_tok ''a'', OR, ID_tok ''b'', AND, ID_tok ''c'']
     (BinaryExpr (BinaryExpr (ident ''a'') (ident ''b'') OR) (ident ''c'') AND)" by simp
next
  show "\<not> logical_expr [ID_tok ''a'', OR, ID_tok ''b'', AND, ID_tok ''c'']
     (BinaryExpr (ident ''a'') (BinaryExpr (ident ''b'') (ident ''c'') AND) OR)"
  proof
    assume "logical_expr [ID_tok ''a'', OR, ID_tok ''b'', AND, ID_tok ''c'']
     (BinaryExpr (ident ''a'') (BinaryExpr (ident ''b'') (ident ''c'') AND) OR)"
    then have "logical_expr ([ID_tok ''a'', OR, ID_tok ''b''] @ AND # [ID_tok ''c''])
     (BinaryExpr (ident ''a'') (BinaryExpr (ident ''b'') (ident ''c'') AND) OR)" by simp
    then have "\<exists>l r. BinaryExpr (ident ''a'') (BinaryExpr (ident ''b'') (ident ''c'') AND) OR
        = BinaryExpr l r AND"
      using logical_root_last[of "[ID_tok ''a'', OR, ID_tok ''b'']" AND "[ID_tok ''c'']"]
      by (auto simp: logical_op_def)
    then show False by simp
  qed
qed

text \<open>
  Claim C8, amended. \<^verbatim>\<open>&&\<close> and \<^verbatim>\<open>||\<close> stand on one level of the grammar, below the
  bitwise operators, and associate to the left. For a logical expression \<open>a\<close>, two
  operands \<open>b\<close> and \<open>c\<close> of the next level in which no logical operator and no closing
  parenthesis occurs, and two logical operators \<open>k1\<close> and \<open>k2\<close> (so also for
  \<^verbatim>\<open>a || b && c\<close>): the grammar derives the tree with \<open>k2\<close> at the root and the \<open>k1\<close>
  node as its left operand, and every tree it derives for these tokens has that shape.
\<close>

theorem logical_operators_one_level:
  assumes A: "logical_expr A a" and B: "bitwise_expr B b" and C: "bitwise_expr C c"
    and k1: "logical_op k1" and k2: "logical_op k2"
    and nB: "\<forall>t\<in>set B. \<not> logical_op t \<and> t \<noteq> RPAREN"
    and nC: "\<forall>t\<in>set C. \<not> logical_op t \<and> t \<noteq> RPAREN"
  shows "logical_expr (A @ [k1] @ B @ [k2] @ C) (BinaryExpr (BinaryExpr a b k1) c k2) \<and>
         (\<forall>n. logical_expr (A @ [k1] @ B @ [k2] @ C) n \<longrightarrow>
            (\<exists>l1 r1 r2. n = BinaryExpr (BinaryExpr l1 r1 k1) r2 k2 \<and> logical_expr A l1))"
proof (intro conjI allI impI)
  have "logical_expr (A @ [k1] @ [] @ B) (BinaryExpr a b k1)"
    using A k1 _ B by (rule logical_expr_3) (simp add: opt_nl_def)
  then have "logical_expr ((A @ [k1] @ [] @ B) @ [k2] @ [] @ C)
      (BinaryExpr (BinaryExpr a b k1) c k2)"
    using k2 _ C by (rule logical_expr_3) (simp add: opt_nl_def)
  then show "logical_expr (A @ [k1] @ B @ [k2] @ C) (BinaryExpr (BinaryExpr a b k1) c k2)"
    by simp
next
  fix n assume "logical_expr (A @ [k1] @ B @ [k2] @ C) n"
  then have "logical_expr ((A @ k1 # B) @ k2 # C) n" by simp
  from logical_root_last[OF this k2 nC] obtain l r where
    n: "n = BinaryExpr l r k2" and l: "logical_expr (A @ k1 # B) l" by blast
  from logical_root_last[OF l k1 nB] obtain l1 r1 where
    "l = BinaryExpr l1 r1 k1" "logical_expr A l1" by blast
  then show "\<exists>l1 r1 r2. n = BinaryExpr (BinaryExpr l1 r1 k1) r2 k2 \<and> logical_expr A l1"
    using n by blast
qed

theorem logical_operators_one_level_witness:
  "logical_expr [ID_tok ''a''] (ident ''a'') \<and> bitwise_expr [ID_tok ''b''] (ident ''b'') \<and>
   bitwise_expr [ID_tok ''c''] (ident ''c'') \<and> logical_op OR \<and> logical_op AND \<and>
   logical_expr ([ID_tok ''a''] @ [OR] @ [ID_tok ''b''] @ [AND] @ [ID_tok ''c''])
     (BinaryExpr (BinaryExpr (ident ''a'') (ident ''b'') OR) (ident ''c'') AND) \<and>
   \<not> logical_expr ([ID_tok ''a''] @ [OR] @ [ID_tok ''b''] @ [AND] @ [ID_tok ''c''])
     (BinaryExpr (ident ''a'') (ident ''c'') AND)"
proof -
  have 1: "logical_expr [ID_tok ''a''] (ident ''a'')"
    by (intro logical_expr_1 ident_bitwise)
  have 2: "bitwise_expr [ID_tok ''b''] (ident ''b'')" and 3: "bitwise_expr [ID_tok ''c''] (ident ''c'')"
    by (rule ident_bitwise)+
  have 4: "logical_op OR" and 5: "logical_op AND" by (simp_all add: logical_op_def)
  have 6: "\<forall>t\<in>set [ID_tok ''b'']. \<not> logical_op t \<and> t \<noteq> RPAREN"
    and 7: "\<forall>t\<in>set [ID_tok ''c'']. \<not> logical_op t \<and> t \<noteq> RPAREN"
    by (simp_all add: logical_op_def)
  note T = logical_operators_one_level[OF 1 2 3 4 5 6 7]
  have "\<not> logical_expr ([ID_tok ''a''] @ [OR] @ [ID_tok ''b''] @ [AND] @ [ID_tok ''c''])
     (BinaryExpr (ident ''a'') (ident ''c'') AND)"
    using T by (auto simp: ident_def)
  then show ?thesis using T 1 2 3 4 5 by blast
qed

subsection \<open>Unification\<close>

lemma Root_mono: "Root n t h = Inr r \<Longrightarrow> n \<le> m \<Longrightarrow> Root m t h = Inr r"
proof (induction n arbitrary: t h r m)
  case 0
  then show ?case by (cases t) (auto split: option.splits)
next
  case (Suc n)
  show ?case
  proof (cases t)
    case (Variable p)
    show ?thesis
    proof (cases "Instance (h p)")
      case None
      then show ?thesis using Suc.prems Variable by simp
    next
      case (Some i)
      obtain m' where m: "m = Suc m'" "n \<le> m'" using Suc.prems(2) by (cases m) auto
      from Suc.prems(1) Variable Some obtain r' where r': "Root n i h = Inr r'"
        by (auto split: sum.splits)
      then have "Root m' i h = Inr r'" using m(2) by (rule Suc.IH)
      then show ?thesis using Suc.prems(1) Variable Some r' m(1) by simp
    qed
  qed (use Suc.prems in auto)
qed

lemma UnifyArgs_length:
  "UnifyArgs n xs ys h = Inr (Inr ts, h') \<Longrightarrow> length ts = length xs \<and> (\<forall>t\<in>set ts. \<not> isTypeError t)"
proof (induction xs arbitrary: ys h ts h')
  case Nil
  then show ?case by (simp add: ret_def)
next
  case (Cons x xs)
  then obtain y ys' where ys: "ys = y # ys'" by (cases ys) (auto simp: fail_def)
  from Cons.prems ys obtain t h1 where t: "Unify n x y h = Inr (t, h1)"
    by (auto simp: seq_def split: sum.splits)
  then have nt: "\<not> isTypeError t" using Cons.prems ys
    by (cases t) (auto simp: seq_def ret_def isTypeError_def)
  then obtain ts' where ts': "UnifyArgs n xs ys' h1 = Inr (Inr ts', h')" "ts = t # ts'"
    using Cons.prems ys t
    by (cases t) (auto simp: seq_def ret_def isTypeError_def split: sum.splits)
  from Cons.IH[OF ts'(1)] show ?case using ts'(2) nt by simp
qed

text \<open>An error returned by the loop is the result of unifying one pair of arguments, every
  pair before it was unified to a type that is no error, and nothing ran after it.\<close>

lemma UnifyArgs_short_circuit:
  "UnifyArgs n xs ys h = Inr (Inl e, h') \<Longrightarrow>
   \<exists>i hi ts. i < length xs \<and> i < length ys \<and> isTypeError e \<and>
     UnifyArgs n (take i xs) (take i ys) h = Inr (Inr ts, hi) \<and>
     Unify n (xs ! i) (ys ! i) hi = Inr (e, h')"
proof (induction xs arbitrary: ys h)
  case Nil
  then show ?case by (simp add: ret_def)
next
  case (Cons x xs)
  then obtain y ys' where ys: "ys = y # ys'" by (cases ys) (auto simp: fail_def)
  from Cons.prems ys obtain t h1 where t: "Unify n x y h = Inr (t, h1)"
    by (auto simp: seq_def split: sum.splits)
  show ?case
  proof (cases "isTypeError t")
    case True
    then have "e = t" "h' = h1" using Cons.prems ys t
      by (cases t; simp add: seq_def ret_def isTypeError_def)+
    then have "0 < length (x # xs) \<and> 0 < length ys \<and> isTypeError e \<and>
        UnifyArgs n (take 0 (x # xs)) (take 0 ys) h = Inr (Inr [], h) \<and>
        Unify n ((x # xs) ! 0) (ys ! 0) h = Inr (e, h')"
      using True t ys by (simp add: ret_def)
    then show ?thesis by blast
  next
    case False
    then have r: "UnifyArgs n xs ys' h1 = Inr (Inl e, h')"
      using Cons.prems ys t
      by (cases t) (auto simp: seq_def ret_def isTypeError_def split: sum.splits)
    from Cons.IH[OF r] obtain i hi ts where i: "i < length xs" "i < length ys'" "isTypeError e"
      "UnifyArgs n (take i xs) (take i ys') h1 = Inr (Inr ts, hi)"
      "Unify n (xs ! i) (ys' ! i) hi = Inr (e, h')" by blast
    have "UnifyArgs n (take (Suc i) (x # xs)) (take (Suc i) ys) h = Inr (Inr (t # ts), hi)"
      using t False i(4) ys by (cases t) (auto simp: seq_def ret_def isTypeError_def)
    then have "Suc i < length (x # xs) \<and> Suc i < length ys \<and> isTypeError e \<and>
        UnifyArgs n (take (Suc i) (x # xs)) (take (Suc i) ys) h = Inr (Inr (t # ts), hi) \<and>
        Unify n ((x # xs) ! Suc i) (ys ! Suc i) hi = Inr (e, h')"
      using i ys by simp
    then show ?thesis by blast
  qed
qed


lemma UnifyArgs_Cons:
  "UnifyArgs n (x # xs) (y # ys) h =
     (case Unify n x y h of
        Inl f \<Rightarrow> Inl f
      | Inr (t, h1) \<Rightarrow>
          if isTypeError t then Inr (Inl t, h1)
          else (case UnifyArgs n xs ys h1 of
                  Inl f \<Rightarrow> Inl f
                | Inr (Inl e, h2) \<Rightarrow> Inr (Inl e, h2)
                | Inr (Inr ts, h2) \<Rightarrow> Inr (Inr (t # ts), h2)))"
  by (auto simp: seq_def ret_def isTypeError_def split: sum.splits ty.splits)

lemma pairwise_unified_Nil:
  "pairwise_unified n [] ys hs ts = (ys = [] \<and> ts = [] \<and> length hs = 1)"
  by (auto simp: pairwise_unified_def)

lemma pairwise_unified_Cons:
  "pairwise_unified n (x # xs) ys hs ts =
     (\<exists>y ys' t ts' h hs'. ys = y # ys' \<and> ts = t # ts' \<and> hs = h # hs' \<and>
        Unify n x y h = Inr (t, hd hs') \<and> \<not> isTypeError t \<and>
        pairwise_unified n xs ys' hs' ts')"
proof
  assume P: "pairwise_unified n (x # xs) ys hs ts"
  then obtain y ys' where ys: "ys = y # ys'" by (cases ys) (auto simp: pairwise_unified_def)
  from P obtain t ts' where ts: "ts = t # ts'" by (cases ts) (auto simp: pairwise_unified_def)
  from P obtain h hs' where hs: "hs = h # hs'" by (cases hs) (auto simp: pairwise_unified_def)
  from P hs have ne: "hs' \<noteq> []" by (auto simp: pairwise_unified_def)
  then have hd: "hd hs' = hs' ! 0" by (simp add: hd_conv_nth)
  from P have all: "\<forall>i<Suc (length xs). Unify n ((x # xs) ! i) (ys ! i) (hs ! i)
        = Inr (ts ! i, hs ! Suc i) \<and> \<not> isTypeError (ts ! i)"
    by (simp add: pairwise_unified_def)
  have 0: "Unify n x y h = Inr (t, hd hs') \<and> \<not> isTypeError t"
    using all[rule_format, of 0] ys ts hs hd by simp
  have "\<forall>i<length xs. Unify n (xs ! i) (ys' ! i) (hs' ! i) = Inr (ts' ! i, hs' ! Suc i) \<and>
      \<not> isTypeError (ts' ! i)"
  proof (intro allI impI)
    fix i assume "i < length xs"
    then show "Unify n (xs ! i) (ys' ! i) (hs' ! i) = Inr (ts' ! i, hs' ! Suc i) \<and>
      \<not> isTypeError (ts' ! i)"
      using all[rule_format, of "Suc i"] ys ts hs by simp
  qed
  then have "pairwise_unified n xs ys' hs' ts'"
    using P ys ts hs by (simp add: pairwise_unified_def)
  then show "\<exists>y ys' t ts' h hs'. ys = y # ys' \<and> ts = t # ts' \<and> hs = h # hs' \<and>
        Unify n x y h = Inr (t, hd hs') \<and> \<not> isTypeError t \<and>
        pairwise_unified n xs ys' hs' ts'"
    using ys ts hs 0 by blast
next
  assume "\<exists>y ys' t ts' h hs'. ys = y # ys' \<and> ts = t # ts' \<and> hs = h # hs' \<and>
        Unify n x y h = Inr (t, hd hs') \<and> \<not> isTypeError t \<and>
        pairwise_unified n xs ys' hs' ts'"
  then obtain y ys' t ts' h hs' where e: "ys = y # ys'" "ts = t # ts'" "hs = h # hs'"
    "Unify n x y h = Inr (t, hd hs')" "\<not> isTypeError t" "pairwise_unified n xs ys' hs' ts'"
    by blast
  from e(6) have ne: "hs' \<noteq> []" by (auto simp: pairwise_unified_def)
  then have hd: "hd hs' = hs' ! 0" by (simp add: hd_conv_nth)
  have "\<forall>i<Suc (length xs). Unify n ((x # xs) ! i) (ys ! i) (hs ! i)
        = Inr (ts ! i, hs ! Suc i) \<and> \<not> isTypeError (ts ! i)"
  proof (intro allI impI)
    fix i assume i: "i < Suc (length xs)"
    show "Unify n ((x # xs) ! i) (ys ! i) (hs ! i)
        = Inr (ts ! i, hs ! Suc i) \<and> \<not> isTypeError (ts ! i)"
    proof (cases i)
      case 0
      then show ?thesis using e hd by simp
    next
      case (Suc j)
      then show ?thesis using e i by (simp add: pairwise_unified_def)
    qed
  qed
  then show "pairwise_unified n (x # xs) ys hs ts"
    using e by (simp add: pairwise_unified_def)
qed

lemma pairwise_unified_last:
  "pairwise_unified n xs ys hs ts \<Longrightarrow> hs \<noteq> []"
  by (auto simp: pairwise_unified_def)

text \<open>The loop returns a list exactly when the pairs are unified one after the other
  without error, and then the list holds the results.\<close>

lemma UnifyArgs_pairwise:
  "length ys = length xs \<Longrightarrow>
   (UnifyArgs n xs ys h = Inr (Inr ts, h')) =
   (\<exists>hs. pairwise_unified n xs ys hs ts \<and> hd hs = h \<and> last hs = h')"
proof (induction xs arbitrary: ys h ts)
  case Nil
  then have "ys = []" by simp
  show ?case
  proof
    assume "UnifyArgs n [] ys h = Inr (Inr ts, h')"
    then have "ts = []" "h' = h" by (simp_all add: ret_def)
    then have "pairwise_unified n [] ys [h] ts \<and> hd [h] = h \<and> last [h] = h'"
      using \<open>ys = []\<close> by (simp add: pairwise_unified_Nil)
    then show "\<exists>hs. pairwise_unified n [] ys hs ts \<and> hd hs = h \<and> last hs = h'" by blast
  next
    assume "\<exists>hs. pairwise_unified n [] ys hs ts \<and> hd hs = h \<and> last hs = h'"
    then obtain hs where "ts = []" "length hs = 1" "hd hs = h" "last hs = h'"
      by (auto simp: pairwise_unified_Nil)
    then have "h' = h" by (cases hs) auto
    then show "UnifyArgs n [] ys h = Inr (Inr ts, h')" using \<open>ts = []\<close> by (simp add: ret_def)
  qed
next
  case (Cons x xs)
  then obtain y ys' where ys: "ys = y # ys'" "length ys' = length xs" by (cases ys) auto
  note IH = Cons.IH[OF ys(2)]
  show ?case
  proof
    assume U: "UnifyArgs n (x # xs) ys h = Inr (Inr ts, h')"
    then obtain t h1 where t: "Unify n x y h = Inr (t, h1)"
      unfolding ys(1) UnifyArgs_Cons by (auto split: sum.splits)
    from U t have nt: "\<not> isTypeError t"
      unfolding ys(1) UnifyArgs_Cons by (auto split: sum.splits if_splits)
    from U t nt obtain ts' where ts': "UnifyArgs n xs ys' h1 = Inr (Inr ts', h')" "ts = t # ts'"
      unfolding ys(1) UnifyArgs_Cons by (auto split: sum.splits)
    from ts'(1) IH obtain hs' where hs': "pairwise_unified n xs ys' hs' ts'" "hd hs' = h1"
      "last hs' = h'" by blast
    have "pairwise_unified n (x # xs) ys (h # hs') ts"
      unfolding pairwise_unified_Cons using ys(1) ts'(2) t nt hs' by simp
    moreover have "last (h # hs') = h'" using hs'(3) pairwise_unified_last[OF hs'(1)] by simp
    ultimately show "\<exists>hs. pairwise_unified n (x # xs) ys hs ts \<and> hd hs = h \<and> last hs = h'"
      by (intro exI[of _ "h # hs'"]) simp
  next
    assume "\<exists>hs. pairwise_unified n (x # xs) ys hs ts \<and> hd hs = h \<and> last hs = h'"
    then obtain hs where hs: "pairwise_unified n (x # xs) ys hs ts" "hd hs = h" "last hs = h'"
      by blast
    from hs(1) obtain y2 ys2 t ts' h0 hs' where e: "ys = y2 # ys2" "ts = t # ts'" "hs = h0 # hs'"
      "Unify n x y2 h0 = Inr (t, hd hs')" "\<not> isTypeError t" "pairwise_unified n xs ys2 hs' ts'"
      unfolding pairwise_unified_Cons by blast
    have eq: "y2 = y" "ys2 = ys'" "h0 = h" using e(1,3) ys(1) hs(2) by simp_all
    have "last hs' = h'" using hs(3) e(3) pairwise_unified_last[OF e(6)] by simp
    then have "UnifyArgs n xs ys' (hd hs') = Inr (Inr ts', h')"
      using IH[of "hd hs'" ts'] e(6) eq by blast
    then show "UnifyArgs n (x # xs) ys h = Inr (Inr ts, h')"
      unfolding ys(1) UnifyArgs_Cons using e(2,4,5) eq by simp
  qed
qed


text \<open>The loop returns a type error exactly when some pair is unified to that error after
  every pair before it was unified without error; the heap it leaves is the heap that
  pair leaves, so no later pair is unified.\<close>

lemma UnifyArgs_first_error:
  "length ys = length xs \<Longrightarrow>
   (UnifyArgs n xs ys h = Inr (Inl e, h')) =
   (\<exists>i hs ts. i < length xs \<and> pairwise_unified n (take i xs) (take i ys) hs ts \<and>
      hd hs = h \<and> Unify n (xs ! i) (ys ! i) (last hs) = Inr (e, h') \<and> isTypeError e)"
proof (induction xs arbitrary: ys h)
  case Nil
  then show ?case by (simp add: ret_def)
next
  case (Cons x xs)
  then obtain y ys' where ys: "ys = y # ys'" "length ys' = length xs" by (cases ys) auto
  note IH = Cons.IH[OF ys(2)]
  show ?case
  proof
    assume U: "UnifyArgs n (x # xs) ys h = Inr (Inl e, h')"
    then obtain t h1 where t: "Unify n x y h = Inr (t, h1)"
      unfolding ys(1) UnifyArgs_Cons by (auto split: sum.splits)
    show "\<exists>i hs ts. i < length (x # xs) \<and>
        pairwise_unified n (take i (x # xs)) (take i ys) hs ts \<and>
        hd hs = h \<and> Unify n ((x # xs) ! i) (ys ! i) (last hs) = Inr (e, h') \<and> isTypeError e"
    proof (cases "isTypeError t")
      case True
      then have "e = t" "h' = h1" using U t unfolding ys(1) UnifyArgs_Cons by simp_all
      then have "0 < length (x # xs) \<and>
        pairwise_unified n (take 0 (x # xs)) (take 0 ys) [h] [] \<and>
        hd [h] = h \<and> Unify n ((x # xs) ! 0) (ys ! 0) (last [h]) = Inr (e, h') \<and> isTypeError e"
        using True t ys(1) by (simp add: pairwise_unified_Nil)
      then show ?thesis by blast
    next
      case False
      then have "UnifyArgs n xs ys' h1 = Inr (Inl e, h')"
        using U t unfolding ys(1) UnifyArgs_Cons by (auto split: sum.splits)
      with IH obtain i hs ts where i: "i < length xs"
        "pairwise_unified n (take i xs) (take i ys') hs ts" "hd hs = h1"
        "Unify n (xs ! i) (ys' ! i) (last hs) = Inr (e, h')" "isTypeError e" by blast
      have "pairwise_unified n (take (Suc i) (x # xs)) (take (Suc i) ys) (h # hs) (t # ts)"
        using i(2,3) t False ys(1) by (simp add: pairwise_unified_Cons)
      moreover have "last (h # hs) = last hs" using pairwise_unified_last[OF i(2)] by simp
      ultimately have "Suc i < length (x # xs) \<and>
        pairwise_unified n (take (Suc i) (x # xs)) (take (Suc i) ys) (h # hs) (t # ts) \<and>
        hd (h # hs) = h \<and>
        Unify n ((x # xs) ! Suc i) (ys ! Suc i) (last (h # hs)) = Inr (e, h') \<and> isTypeError e"
        using i ys(1) by simp
      then show ?thesis by blast
    qed
  next
    assume "\<exists>i hs ts. i < length (x # xs) \<and>
        pairwise_unified n (take i (x # xs)) (take i ys) hs ts \<and>
        hd hs = h \<and> Unify n ((x # xs) ! i) (ys ! i) (last hs) = Inr (e, h') \<and> isTypeError e"
    then obtain i hs ts where i: "i < length (x # xs)"
      "pairwise_unified n (take i (x # xs)) (take i ys) hs ts" "hd hs = h"
      "Unify n ((x # xs) ! i) (ys ! i) (last hs) = Inr (e, h')" "isTypeError e" by blast
    show "UnifyArgs n (x # xs) ys h = Inr (Inl e, h')"
    proof (cases i)
      case 0
      then have "length hs = 1" using i(2) by (simp add: pairwise_unified_Nil)
      then have "last hs = h" using i(3) by (cases hs) auto
      then show ?thesis using i(4,5) 0 unfolding ys(1) UnifyArgs_Cons by simp
    next
      case (Suc j)
      then have "pairwise_unified n (x # take j xs) (y # take j ys') hs ts"
        using i(2) ys(1) by simp
      then obtain t ts' h0 hs' where e: "ts = t # ts'" "hs = h0 # hs'"
        "Unify n x y h0 = Inr (t, hd hs')" "\<not> isTypeError t"
        "pairwise_unified n (take j xs) (take j ys') hs' ts'"
        unfolding pairwise_unified_Cons by auto
      have h0: "h0 = h" using i(3) e(2) by simp
      have "last hs = last hs'" using e(2) pairwise_unified_last[OF e(5)] by simp
      then have "Unify n (xs ! j) (ys' ! j) (last hs') = Inr (e, h')"
        using i(4) Suc ys(1) by simp
      moreover have "j < length xs" using i(1) Suc by simp
      ultimately have "UnifyArgs n xs ys' (hd hs') = Inr (Inl e, h')"
        using IH[of "hd hs'"] e(5) i(5) by blast
      then show ?thesis using e(3,4) h0 unfolding ys(1) UnifyArgs_Cons by simp
    qed
  qed
qed


lemma unified_into_UnifyArgs:
  assumes "length ys = length xs"
  shows "unified_into nm n xs ys h r h' =
           ((\<exists>ts. UnifyArgs n xs ys h = Inr (Inr ts, h') \<and> r = Operator nm ts) \<or>
            UnifyArgs n xs ys h = Inr (Inl r, h'))"
  unfolding unified_into_def UnifyArgs_pairwise[OF assms] UnifyArgs_first_error[OF assms]
  by blast

lemma UnifyArgs_result:
  assumes "length ys = length xs"
  shows "((case UnifyArgs n xs ys h of
             Inl f \<Rightarrow> Inl f
           | Inr (Inl e, h4) \<Rightarrow> Inr (e, h4)
           | Inr (Inr ts, h4) \<Rightarrow> Inr (Operator nm ts, h4)) = Inr (r, h'))
         = unified_into nm n xs ys h r h'"
proof (cases "UnifyArgs n xs ys h")
  case (Inl f)
  then show ?thesis by (simp add: unified_into_UnifyArgs[OF assms])
next
  case (Inr p)
  obtain res h4 where p: "p = (res, h4)" by (cases p)
  show ?thesis
  proof (cases res)
    case (Inl e)
    then have E: "UnifyArgs n xs ys h = Inr (Inl e, h4)" using Inr p by simp
    then have "isTypeError e"
      using UnifyArgs_first_error[OF assms, where n=n and h=h and e=e and h'=h4] by blast
    then show ?thesis using E
      by (cases e) (auto simp: unified_into_UnifyArgs[OF assms] isTypeError_def)
  next
    case (Inr ts)
    then show ?thesis using \<open>UnifyArgs n xs ys h = Inr p\<close> p
      by (auto simp: unified_into_UnifyArgs[OF assms])
  qed
qed

text \<open>
  Claim C4. Let the roots of \<open>a\<close> and \<open>b\<close> be the operators \<open>na\<close> of \<open>argsa\<close> and \<open>nb\<close>
  of \<open>argsb\<close>, found with the budget \<open>n\<close>. If the numbers of arguments differ, \<^verbatim>\<open>Unify\<close>
  returns the mismatch of the two roots. If they agree and the names differ, it calls
  \<^verbatim>\<open>LeastUpperBound\<close> on \<open>a\<close> and \<open>b\<close> first: a type error is returned as it is, a
  variable gives an internal error, and for an operator \<open>nm\<close> the call returns \<open>r\<close> and
  leaves \<open>h'\<close> exactly when the arguments are unified pairwise into \<open>nm\<close> with that
  result. If the names agree, the same holds with the common name. Unified pairwise
  means, in both directions: when every pair \<open>i\<close> is unified by \<^verbatim>\<open>Unify\<close> to a type
  \<open>ts ! i\<close> that is no error, each pair starting in the heap the pair before it left,
  the result is the operator of the list \<open>ts\<close> and the heap the one the last pair left;
  when a pair \<open>i\<close> is unified to a type error after the pairs before it were unified
  without error, the result is that error and the heap the one pair \<open>i\<close> left, so no
  pair after \<open>i\<close> is unified; and \<^verbatim>\<open>Unify\<close> returns nothing else.
\<close>

theorem Unify_operators:
  assumes Ra: "Root n a h = Inr (Operator na argsa, h1)"
    and Rb: "Root n b h1 = Inr (Operator nb argsb, h2)"
  shows
    "(length argsa \<noteq> length argsb \<longrightarrow>
        Unify (Suc n) a b h =
          Inr (TypeError (Some ErrTypeMismatch) (Some (Operator na argsa))
                 (Some (Operator nb argsb)), h2)) \<and>
     (length argsa = length argsb \<and> na \<noteq> nb \<longrightarrow>
        (\<forall>t h3. LeastUpperBound n a b h2 = Inr (t, h3) \<and> isTypeError t \<longrightarrow>
           Unify (Suc n) a b h = Inr (t, h3)) \<and>
        (\<forall>q h3. LeastUpperBound n a b h2 = Inr (Variable q, h3) \<longrightarrow>
           Unify (Suc n) a b h =
             Inr (TypeError (Some ErrInternal) (Some (Operator na argsa))
                    (Some (Operator nb argsb)), h3)) \<and>
        (\<forall>nm xs h3 r h'. LeastUpperBound n a b h2 = Inr (Operator nm xs, h3) \<longrightarrow>
           (Unify (Suc n) a b h = Inr (r, h')) = unified_into nm n argsa argsb h3 r h')) \<and>
     (length argsa = length argsb \<and> na = nb \<longrightarrow>
        (\<forall>r h'. (Unify (Suc n) a b h = Inr (r, h')) = unified_into na n argsa argsb h2 r h'))"
proof (intro conjI impI allI)
  assume "length argsa \<noteq> length argsb"
  then show "Unify (Suc n) a b h =
          Inr (TypeError (Some ErrTypeMismatch) (Some (Operator na argsa))
                 (Some (Operator nb argsb)), h2)"
    using Ra Rb by (simp add: seq_def ret_def)
next
  fix t h3
  assume "length argsa = length argsb \<and> na \<noteq> nb"
    and "LeastUpperBound n a b h2 = Inr (t, h3) \<and> isTypeError t"
  then show "Unify (Suc n) a b h = Inr (t, h3)"
    using Ra Rb by (cases t) (simp_all add: seq_def ret_def isTypeError_def)
next
  fix q h3
  assume "length argsa = length argsb \<and> na \<noteq> nb"
    and "LeastUpperBound n a b h2 = Inr (Variable q, h3)"
  then show "Unify (Suc n) a b h =
             Inr (TypeError (Some ErrInternal) (Some (Operator na argsa))
                    (Some (Operator nb argsb)), h3)"
    using Ra Rb by (simp add: seq_def ret_def)
next
  fix nm xs h3 r h'
  assume A: "length argsa = length argsb \<and> na \<noteq> nb"
    and L: "LeastUpperBound n a b h2 = Inr (Operator nm xs, h3)"
  have "Unify (Suc n) a b h =
      (case UnifyArgs n argsa argsb h3 of
         Inl f \<Rightarrow> Inl f
       | Inr (Inl e, h4) \<Rightarrow> Inr (e, h4)
       | Inr (Inr ts, h4) \<Rightarrow> Inr (Operator nm ts, h4))"
    using Ra Rb A L by (auto simp: seq_def ret_def split: sum.splits)
  then show "(Unify (Suc n) a b h = Inr (r, h')) = unified_into nm n argsa argsb h3 r h'"
    using UnifyArgs_result[where ys=argsb and xs=argsa and n=n and h=h3 and nm=nm and r=r and h'=h'] A by simp
next
  fix r h'
  assume A: "length argsa = length argsb \<and> na = nb"
  have "Unify (Suc n) a b h =
      (case UnifyArgs n argsa argsb h2 of
         Inl f \<Rightarrow> Inl f
       | Inr (Inl e, h4) \<Rightarrow> Inr (e, h4)
       | Inr (Inr ts, h4) \<Rightarrow> Inr (Operator na ts, h4))"
    using Ra Rb A by (auto simp: seq_def ret_def split: sum.splits)
  then show "(Unify (Suc n) a b h = Inr (r, h')) = unified_into na n argsa argsb h2 r h'"
    using UnifyArgs_result[where ys=argsb and xs=argsa and n=n and h=h2 and nm=na and r=r and h'=h'] A by simp
qed


lemma lub_table_None_Int:
  "lub_table h a b None_t Int_t = TypeError (Some ErrTypeMismatch) (Some a) (Some b)"
  by (simp add: lub_table_def same_root_def isVariable_def builtin_defs doubleton_eq_iff)

lemma lub_table_Int_Float: "lub_table h a b Int_t Float_t = Float_t"
  by (simp add: lub_table_def same_root_def isVariable_def builtin_defs doubleton_eq_iff)

lemma Unify_None_Int:
  "Unify (Suc (Suc n)) None_t Int_t h =
     Inr (TypeError (Some ErrTypeMismatch) (Some None_t) (Some Int_t), h)"
  using LUB_nullary[of n "''None''" "''Int''" h] lub_table_None_Int[of h None_t Int_t]
  by (simp add: seq_def ret_def builtin_defs)

lemma Unify_Int_Float:
  "Unify (Suc (Suc n)) Int_t Float_t h = Inr (Float_t, h)"
  using LUB_nullary[of n "''Int''" "''Float''" h] lub_table_Int_Float[of h Int_t Float_t]
  by (simp add: seq_def ret_def builtin_defs)

lemma Unify_Variable_String:
  "Unify (Suc (Suc (Suc n))) (Variable 0) String_t fresh =
     Inr (String_t, SetInstance 0 String_t fresh)"
  by (simp add: seq_def ret_def builtin_defs fresh_def)

theorem Unify_operators_witness:
  "Root 3 (Operator ''f'' [Int_t]) fresh = Inr (Operator ''f'' [Int_t], fresh) \<and>
   Root 3 (Operator ''f'' []) fresh = Inr (Operator ''f'' [], fresh) \<and>
   Unify 4 (Operator ''f'' [Int_t]) (Operator ''f'' []) fresh =
     Inr (TypeError (Some ErrTypeMismatch) (Some (Operator ''f'' [Int_t]))
            (Some (Operator ''f'' [])), fresh) \<and>
   Unify 4 Int_t Float_t fresh = Inr (Float_t, fresh) \<and>
   Unify 4 (Operator ''f'' [Int_t, Variable 0]) (Operator ''f'' [Float_t, String_t]) fresh =
     Inr (Operator ''f'' [Float_t, String_t], SetInstance 0 String_t fresh) \<and>
   Unify 4 (Operator ''f'' [None_t, Variable 0]) (Operator ''f'' [Int_t, String_t]) fresh =
     Inr (TypeError (Some ErrTypeMismatch) (Some None_t) (Some Int_t), fresh) \<and>
   Instance (fresh 0) = None \<and>
   Instance (SetInstance 0 String_t fresh 0) = Some String_t"
proof -
  have R: "Root 3 (Operator nm args) fresh = Inr (Operator nm args, fresh)" for nm args
    by simp
  have 1: "Unify 4 (Operator ''f'' [Int_t]) (Operator ''f'' []) fresh =
     Inr (TypeError (Some ErrTypeMismatch) (Some (Operator ''f'' [Int_t]))
            (Some (Operator ''f'' [])), fresh)"
    using Unify_operators[OF R[of "''f''" "[Int_t]"] R[of "''f''" "[]"]] by simp
  have L: "LeastUpperBound 3 Int_t Float_t fresh = Inr (Operator ''Float'' [], fresh)"
    using LUB_nullary[of 2 "''Int''" "''Float''" fresh] lub_table_Int_Float[of fresh Int_t Float_t]
    by (simp add: builtin_defs numeral_3_eq_3)
  have "pairwise_unified 3 [] [] [fresh] []"
    by (simp add: pairwise_unified_def)
  then have A2: "unified_into ''Float'' 3 [] [] fresh (Operator ''Float'' []) fresh"
    unfolding unified_into_def by (intro disjI1 exI[of _ "[fresh]"] exI[of _ "[]"]) simp
  have 2: "Unify 4 Int_t Float_t fresh = Inr (Float_t, fresh)"
    using Unify_operators[OF R[of "''Int''" "[]"] R[of "''Float''" "[]"]] L A2
    by (simp add: builtin_defs)
  have U3: "Unify 3 Int_t Float_t fresh = Inr (Float_t, fresh)"
    using Unify_Int_Float[of 1 fresh] by (simp add: numeral_3_eq_3)
  have V3: "Unify 3 (Variable 0) String_t fresh = Inr (String_t, SetInstance 0 String_t fresh)"
    using Unify_Variable_String[of 0] by (simp add: numeral_3_eq_3)
  have "pairwise_unified 3 [Int_t, Variable 0] [Float_t, String_t]
          [fresh, fresh, SetInstance 0 String_t fresh] [Float_t, String_t]"
    using U3 V3
    by (simp add: pairwise_unified_def less_Suc_eq isTypeError_def builtin_defs
          del: Unify.simps)
  then have A3: "unified_into ''f'' 3 [Int_t, Variable 0] [Float_t, String_t] fresh
      (Operator ''f'' [Float_t, String_t]) (SetInstance 0 String_t fresh)"
    unfolding unified_into_def
    by (intro disjI1 exI[of _ "[fresh, fresh, SetInstance 0 String_t fresh]"]
          exI[of _ "[Float_t, String_t]"]) simp
  have 3: "Unify 4 (Operator ''f'' [Int_t, Variable 0]) (Operator ''f'' [Float_t, String_t]) fresh =
     Inr (Operator ''f'' [Float_t, String_t], SetInstance 0 String_t fresh)"
    using Unify_operators[OF R[of "''f''" "[Int_t, Variable 0]"] R[of "''f''" "[Float_t, String_t]"]] A3
    by simp
  have N3: "Unify 3 None_t Int_t fresh =
      Inr (TypeError (Some ErrTypeMismatch) (Some None_t) (Some Int_t), fresh)"
    using Unify_None_Int[of 1 fresh] by (simp add: numeral_3_eq_3)
  have P4: "pairwise_unified 3 (take 0 [None_t, Variable 0]) (take 0 [Int_t, String_t]) [fresh] []"
    by (simp add: pairwise_unified_def)
  have A4: "unified_into ''f'' 3 [None_t, Variable 0] [Int_t, String_t] fresh
      (TypeError (Some ErrTypeMismatch) (Some None_t) (Some Int_t)) fresh"
    unfolding unified_into_def
    using P4 N3
    by (intro disjI2 exI[of _ "0::nat"] exI[of _ "[fresh]"] exI[of _ "[]"])
       (simp add: isTypeError_def del: Unify.simps)
  have 4: "Unify 4 (Operator ''f'' [None_t, Variable 0]) (Operator ''f'' [Int_t, String_t]) fresh =
     Inr (TypeError (Some ErrTypeMismatch) (Some None_t) (Some Int_t), fresh)"
    using Unify_operators[OF R[of "''f''" "[None_t, Variable 0]"] R[of "''f''" "[Int_t, String_t]"]] A4
    by simp
  have 5: "Instance (fresh 0) = None" "Instance (SetInstance 0 String_t fresh 0) = Some String_t"
    by (simp_all add: fresh_def SetInstance_def)
  show ?thesis using R 1 2 3 4 5 by simp
qed









subsection \<open>Unification with a variable\<close>

text \<open>
  The occurs check decides \<open>occurs\<close>. For a finite type \<open>t\<close> and an unbound variable
  \<open>p\<close>, and a heap \<open>h1\<close> that is \<open>h\<close> after some path compression, a budget that covers
  the depth of \<open>t\<close> makes \<^verbatim>\<open>occursInType\<close> return whether \<open>p\<close> occurs in \<open>t\<close>; the heap it
  leaves is \<open>h1\<close> after more path compression.
\<close>

lemma two_more: "Suc (Suc k) \<le> n \<Longrightarrow> \<exists>m. n = Suc (Suc m) \<and> k \<le> m"
  by (cases n; simp; rename_tac n'; case_tac n'; simp)

lemma Equals_root_Variable:
  assumes "is_root h r" "Instance (h p) = None"
  shows "Equals (Suc n) r (Variable p) h =
           Inr (case r of Variable q \<Rightarrow> ID (h q) = ID (h p) | _ \<Rightarrow> False, h)"
  using assms by (cases r) (simp_all add: seq_def ret_def)

lemma occurs_Variable:
  assumes "resolves h t (Variable q)"
  shows "occurs h p t = (ID (h q) = ID (h p))"
proof
  assume "occurs h p t"
  then show "ID (h q) = ID (h p)"
  proof (cases rule: occurs.cases)
    case (occ_Variable q')
    then show ?thesis using resolves_det[OF assms occ_Variable(1)] by simp
  next
    case (occ_Operator nm args x)
    then show ?thesis using resolves_det[OF assms occ_Operator(1)] by simp
  qed
next
  assume "ID (h q) = ID (h p)"
  with assms show "occurs h p t" by (rule occurs.occ_Variable)
qed

lemma occurs_TypeError:
  assumes "resolves h t (TypeError k ex rc)"
  shows "\<not> occurs h p t"
proof
  assume "occurs h p t"
  then show False
  proof (cases rule: occurs.cases)
    case (occ_Variable q')
    then show ?thesis using resolves_det[OF assms occ_Variable(1)] by simp
  next
    case (occ_Operator nm args x)
    then show ?thesis using resolves_det[OF assms occ_Operator(1)] by simp
  qed
qed

lemma occurs_Operator:
  assumes "resolves h t (Operator nm args)"
  shows "occurs h p t = (\<exists>x\<in>set args. occurs h p x)"
proof
  assume "occurs h p t"
  then show "\<exists>x\<in>set args. occurs h p x"
  proof (cases rule: occurs.cases)
    case (occ_Variable q')
    then show ?thesis using resolves_det[OF assms occ_Variable(1)] by simp
  next
    case (occ_Operator nm' args' x)
    then show ?thesis using resolves_det[OF assms occ_Operator(1)] by auto
  qed
next
  assume "\<exists>x\<in>set args. occurs h p x"
  then show "occurs h p t" using assms by (auto intro: occurs.occ_Operator)
qed

lemma occursIn_correct:
  assumes "\<forall>x\<in>set xs. \<forall>h1. compressed h h1 \<longrightarrow>
      (\<exists>k h2. compressed h1 h2 \<and> (\<forall>n\<ge>k. occursInType n v x h1 = Inr (P x, h2)))"
  shows "compressed h h1 \<Longrightarrow>
      \<exists>k h2. compressed h1 h2 \<and> (\<forall>n\<ge>k. occursIn n v xs h1 = Inr (\<exists>x\<in>set xs. P x, h2))"
  using assms
proof (induction xs arbitrary: h1)
  case Nil
  then show ?case using compressed_refl by (auto simp: ret_def)
next
  case (Cons x xs)
  from Cons.prems obtain k1 h2 where 1: "compressed h1 h2"
    "\<forall>n\<ge>k1. occursInType n v x h1 = Inr (P x, h2)" by (meson list.set_intros(1))
  have c2: "compressed h h2" using Cons.prems(1) 1(1) by (rule compressed_trans)
  have "\<exists>k h3. compressed h2 h3 \<and> (\<forall>n\<ge>k. occursIn n v xs h2 = Inr (\<exists>x\<in>set xs. P x, h3))"
    using c2 Cons.prems(2) by (intro Cons.IH) auto
  then obtain k2 h3 where 2: "compressed h2 h3"
    "\<forall>n\<ge>k2. occursIn n v xs h2 = Inr (\<exists>x\<in>set xs. P x, h3)" by blast
  show ?case
  proof (cases "P x")
    case True
    then have "\<forall>n\<ge>k1. occursIn n v (x # xs) h1 = Inr (\<exists>y\<in>set (x # xs). P y, h2)"
      using 1(2) by (simp add: seq_def ret_def)
    then show ?thesis using 1(1) by blast
  next
    case False
    then have "\<forall>n\<ge>max k1 k2. occursIn n v (x # xs) h1 = Inr (\<exists>y\<in>set (x # xs). P y, h3)"
      using 1(2) 2(2) by (simp add: seq_def ret_def)
    moreover have "compressed h1 h3" using 1(1) 2(1) by (rule compressed_trans)
    ultimately show ?thesis by blast
  qed
qed

lemma occursInType_step:
  assumes "Root n t h1 = Inr (root, h2)" "Equals n root v h2 = Inr (eq, h3)"
  shows "occursInType (Suc n) v t h1 =
           (if eq then Inr (True, h3)
            else (case root of
                    Operator nm args \<Rightarrow> occursIn n v args h3
                  | _ \<Rightarrow> Inr (False, h3)))"
  using assms
  by (cases root) (simp_all add: seq_def ret_def del: Equals.simps Root.simps occursIn.simps)

lemma occursInType_correct:
  assumes "finite_type h t" and p: "Instance (h p) = None"
  shows "compressed h h1 \<Longrightarrow>
     \<exists>k h2. compressed h1 h2 \<and>
       (\<forall>n\<ge>k. occursInType n (Variable p) t h1 = Inr (occurs h p t, h2))"
  using assms(1)
proof (induction arbitrary: h1 rule: finite_type.induct)
  case (fin_Variable t q)
  have "resolves h1 t (Variable q)" using fin_Variable(2,1) by (rule compressed_resolves)
  from Root_complete[OF this] obtain k h2 where
    k: "\<forall>n\<ge>k. Root n t h1 = Inr (Variable q, h2)" by blast
  then have Rk: "Root k t h1 = Inr (Variable q, h2)" by simp
  have c: "compressed h1 h2" using Root_sound[OF Rk] by simp
  have r1: "is_root h1 (Variable q)" using Root_sound[OF Rk] resolves_is_root by blast
  have rq: "is_root h2 (Variable q)" unfolding compressed_is_root[OF c] by (rule r1)
  have c': "compressed h h2" using fin_Variable(2) c by (rule compressed_trans)
  have p2: "Instance (h2 p) = None" using p compressed_unbound[OF c'] by simp
  have ids: "(ID (h2 q) = ID (h2 p)) = occurs h p t"
    using occurs_Variable[OF fin_Variable(1), of p] compressed_ID[OF c'] by simp
  have "occursInType n (Variable p) t h1 = Inr (occurs h p t, h2)" if A: "Suc (Suc k) \<le> n" for n
  proof -
    obtain m where m: "n = Suc (Suc m)" "k \<le> m" using two_more[OF A] by blast
    have R: "Root (Suc m) t h1 = Inr (Variable q, h2)" using k m(2) by simp
    have E: "Equals (Suc m) (Variable q) (Variable p) h2 = Inr (occurs h p t, h2)"
      unfolding Equals_root_Variable[OF rq p2, of m] using ids by simp
    show ?thesis unfolding m(1) occursInType_step[OF R E] by simp
  qed
  then show ?case using c by blast
next
  case (fin_TypeError t e ex rc)
  have "resolves h1 t (TypeError e ex rc)" using fin_TypeError(2,1) by (rule compressed_resolves)
  from Root_complete[OF this] obtain k h2 where
    k: "\<forall>n\<ge>k. Root n t h1 = Inr (TypeError e ex rc, h2)" by blast
  then have Rk: "Root k t h1 = Inr (TypeError e ex rc, h2)" by simp
  have c: "compressed h1 h2" using Root_sound[OF Rk] by simp
  have no: "\<not> occurs h p t" using fin_TypeError(1) by (rule occurs_TypeError)
  have "occursInType n (Variable p) t h1 = Inr (occurs h p t, h2)" if A: "Suc (Suc k) \<le> n" for n
  proof -
    obtain m where m: "n = Suc (Suc m)" "k \<le> m" using two_more[OF A] by blast
    have R: "Root (Suc m) t h1 = Inr (TypeError e ex rc, h2)" using k m(2) by simp
    have c': "compressed h h2" using fin_TypeError(2) c by (rule compressed_trans)
    have p2: "Instance (h2 p) = None" using p compressed_unbound[OF c'] by simp
    have E: "Equals (Suc m) (TypeError e ex rc) (Variable p) h2 = Inr (False, h2)"
      using p2 by (subst Equals_root_Variable) simp_all
    show ?thesis unfolding m(1) occursInType_step[OF R E] using no by simp
  qed
  then show ?case using c by blast
next
  case (fin_Operator t nm args)
  have "resolves h1 t (Operator nm args)" using fin_Operator(3,1) by (rule compressed_resolves)
  from Root_complete[OF this] obtain k h2 where
    k: "\<forall>n\<ge>k. Root n t h1 = Inr (Operator nm args, h2)" by blast
  then have Rk: "Root k t h1 = Inr (Operator nm args, h2)" by simp
  have c: "compressed h1 h2" using Root_sound[OF Rk] by simp
  have c': "compressed h h2" using fin_Operator(3) c by (rule compressed_trans)
  have p2: "Instance (h2 p) = None" using p compressed_unbound[OF c'] by simp
  have "\<forall>x\<in>set args. \<forall>h1. compressed h h1 \<longrightarrow>
      (\<exists>k h2. compressed h1 h2 \<and>
         (\<forall>n\<ge>k. occursInType n (Variable p) x h1 = Inr (occurs h p x, h2)))"
    using fin_Operator(2) by blast
  from occursIn_correct[where P="occurs h p" and v="Variable p" and xs=args, OF this c']
  obtain k' h3 where
    k': "compressed h2 h3"
    "\<forall>n\<ge>k'. occursIn n (Variable p) args h2 = Inr (\<exists>x\<in>set args. occurs h p x, h3)"
    by blast
  have oc: "(\<exists>x\<in>set args. occurs h p x) = occurs h p t"
    using occurs_Operator[OF fin_Operator(1), of p] by simp
  have "occursInType n (Variable p) t h1 = Inr (occurs h p t, h3)"
    if A: "Suc (Suc (max k k')) \<le> n" for n
  proof -
    obtain m where m: "n = Suc (Suc m)" "max k k' \<le> m" using two_more[OF A] by blast
    have R: "Root (Suc m) t h1 = Inr (Operator nm args, h2)" using k m(2) by simp
    have E: "Equals (Suc m) (Operator nm args) (Variable p) h2 = Inr (False, h2)"
      using p2 by (subst Equals_root_Variable) simp_all
    have O: "occursIn (Suc m) (Variable p) args h2 = Inr (occurs h p t, h3)"
      using k'(2) m(2) oc by simp
    show ?thesis unfolding m(1) occursInType_step[OF R E] using O by simp
  qed
  moreover have "compressed h1 h3" using c k'(1) by (rule compressed_trans)
  ultimately show ?case by blast
qed


lemma finite_type_root:
  assumes "finite_type h t" "resolves h t r"
  shows "finite_type h r"
proof -
  have rr: "resolves h r r" using assms(2) resolves_is_root is_root_resolves by blast
  from assms(1) show ?thesis
  proof (cases rule: finite_type.cases)
    case (fin_Variable q)
    then have "r = Variable q" using resolves_det assms(2) by blast
    then show ?thesis using rr by (auto intro: finite_type.fin_Variable)
  next
    case (fin_TypeError k ex rc)
    then have "r = TypeError k ex rc" using resolves_det assms(2) by blast
    then show ?thesis using rr by (auto intro: finite_type.fin_TypeError)
  next
    case (fin_Operator nm args)
    then have "r = Operator nm args" using resolves_det assms(2) by blast
    then show ?thesis using rr fin_Operator(2) by (auto intro: finite_type.fin_Operator)
  qed
qed

lemma occurs_root:
  assumes "resolves h t r"
  shows "occurs h p r = occurs h p t"
proof -
  have rr: "resolves h r r" using assms resolves_is_root is_root_resolves by blast
  show ?thesis
  proof (cases r)
    case (Variable q)
    then show ?thesis using occurs_Variable[of h t q p] occurs_Variable[of h r q p] assms rr by simp
  next
    case (Operator nm args)
    then show ?thesis using occurs_Operator[of h t nm args p] occurs_Operator[of h r nm args p] assms rr
      by simp
  next
    case (TypeError k ex rc)
    then show ?thesis using occurs_TypeError[of h t k ex rc p] occurs_TypeError[of h r k ex rc p] assms rr
      by simp
  qed
qed

lemma compressed_finite_type:
  assumes c: "compressed h h'"
  shows "finite_type h t \<Longrightarrow> finite_type h' t"
proof (induction rule: finite_type.induct)
  case (fin_Variable t q)
  then show ?case using compressed_resolves[OF c] by (blast intro: finite_type.fin_Variable)
next
  case (fin_TypeError t k ex rc)
  then show ?case using compressed_resolves[OF c] by (blast intro: finite_type.fin_TypeError)
next
  case (fin_Operator t nm args)
  have "resolves h' t (Operator nm args)" using fin_Operator(1) by (rule compressed_resolves[OF c])
  moreover have "\<forall>x\<in>set args. finite_type h' x" using fin_Operator(2) by blast
  ultimately show ?case by (rule finite_type.fin_Operator)
qed

lemma compressed_occurs_fwd:
  assumes c: "compressed h h'"
  shows "occurs h p t \<Longrightarrow> occurs h' p t"
proof (induction rule: occurs.induct)
  case (occ_Variable t q)
  have "resolves h' t (Variable q)" using occ_Variable(1) by (rule compressed_resolves[OF c])
  moreover have "ID (h' q) = ID (h' p)" using occ_Variable(2) compressed_ID[OF c] by simp
  ultimately show ?case by (rule occurs.occ_Variable)
next
  case (occ_Operator t nm args x)
  have "resolves h' t (Operator nm args)" using occ_Operator(1) by (rule compressed_resolves[OF c])
  then show ?case using occ_Operator(2,4) by (rule occurs.occ_Operator)
qed

lemma compressed_occurs_back:
  assumes c: "compressed h h'"
  shows "occurs h' p t \<Longrightarrow> occurs h p t"
proof (induction rule: occurs.induct)
  case (occ_Variable t q)
  have "resolves h t (Variable q)" using occ_Variable(1) by (rule compressed_resolves_back[OF c])
  moreover have "ID (h q) = ID (h p)" using occ_Variable(2) compressed_ID[OF c] by simp
  ultimately show ?case by (rule occurs.occ_Variable)
next
  case (occ_Operator t nm args x)
  have "resolves h t (Operator nm args)" using occ_Operator(1) by (rule compressed_resolves_back[OF c])
  then show ?case using occ_Operator(2,4) by (rule occurs.occ_Operator)
qed

lemma compressed_occurs: "compressed h h' \<Longrightarrow> occurs h' p t = occurs h p t"
  using compressed_occurs_fwd compressed_occurs_back by blast

lemma Unify_roots:
  assumes "Root n a h = Inr (Variable p, h1)" "Root n b h1 = Inr (r, h2)"
  shows "Unify (Suc n) a b h =
    (case r of
       Variable q \<Rightarrow>
         if ID (h2 p) \<noteq> ID (h2 q) then Inr (r, SetInstance p r h2) else Inr (Variable p, h2)
     | Operator nm args \<Rightarrow>
         (case occursInType n (Variable p) r h2 of
            Inl f \<Rightarrow> Inl f
          | Inr (occ, h3) \<Rightarrow>
              if occ
              then Inr (TypeError (Some ErrRecursiveUnification) (Some (Variable p)) (Some r), h3)
              else Inr (r, SetInstance p r h3))
     | TypeError k ex rc \<Rightarrow> Inr (TypeError (Some ErrInternal) (Some a) (Some b), h2))"
  using assms
  by (cases r)
     (auto simp add: seq_def ret_def simp del: Root.simps occursInType.simps split: sum.splits)

lemma Unify_Variable_left:
  assumes a: "resolves h a (Variable p)" and b: "resolves h b r" and fin: "finite_type h b"
  shows "\<exists>k h2. compressed h h2 \<and> (\<forall>n\<ge>k. Unify n a b h =
    (case r of
       Variable q \<Rightarrow>
         if ID (h p) \<noteq> ID (h q) then Inr (r, SetInstance p r h2) else Inr (Variable p, h2)
     | Operator nm args \<Rightarrow>
         if occurs h p r
         then Inr (TypeError (Some ErrRecursiveUnification) (Some (Variable p)) (Some r), h2)
         else Inr (r, SetInstance p r h2)
     | TypeError k ex rc \<Rightarrow> Inr (TypeError (Some ErrInternal) (Some a) (Some b), h2)))"
proof -
  from Root_complete[OF a] obtain k1 h1 where
    k1: "\<forall>n\<ge>k1. Root n a h = Inr (Variable p, h1)" by blast
  then have "Root k1 a h = Inr (Variable p, h1)" by simp
  then have c1: "compressed h h1" using Root_sound by blast
  have "resolves h1 b r" using c1 b by (rule compressed_resolves)
  from Root_complete[OF this] obtain k2 h2 where
    k2: "\<forall>n\<ge>k2. Root n b h1 = Inr (r, h2)" by blast
  then have "Root k2 b h1 = Inr (r, h2)" by simp
  then have c12: "compressed h1 h2" using Root_sound by blast
  have c2: "compressed h h2" using c1 c12 by (rule compressed_trans)
  have ids: "ID (h2 x) = ID (h x)" for x using compressed_ID[OF c2] by simp
  have pu: "Instance (h p) = None" using resolves_is_root[OF a] by simp
  have finr: "finite_type h r" using fin b by (rule finite_type_root)
  from occursInType_correct[OF finr pu c2] obtain k3 h3 where
    c23: "compressed h2 h3" and
    k3: "\<forall>n\<ge>k3. occursInType n (Variable p) r h2 = Inr (occurs h p r, h3)" by blast
  have c3: "compressed h h3" using c2 c23 by (rule compressed_trans)
  show ?thesis
  proof (cases r)
    case (Variable q)
    have "Unify n a b h =
        (if ID (h p) \<noteq> ID (h q) then Inr (r, SetInstance p r h2) else Inr (Variable p, h2))"
      if A: "Suc (max k1 k2) \<le> n" for n
    proof -
      obtain m where m: "n = Suc m" "max k1 k2 \<le> m" using A by (cases n) auto
      have R1: "Root m a h = Inr (Variable p, h1)" using k1 m(2) by simp
      have R2: "Root m b h1 = Inr (r, h2)" using k2 m(2) by simp
      show ?thesis unfolding m(1) Unify_roots[OF R1 R2] using Variable by (simp add: ids)
    qed
    then have "\<forall>n\<ge>Suc (max k1 k2). Unify n a b h =
        (case r of
           Variable q \<Rightarrow>
             if ID (h p) \<noteq> ID (h q) then Inr (r, SetInstance p r h2) else Inr (Variable p, h2)
         | Operator nm args \<Rightarrow>
             if occurs h p r
             then Inr (TypeError (Some ErrRecursiveUnification) (Some (Variable p)) (Some r), h2)
             else Inr (r, SetInstance p r h2)
         | TypeError k ex rc \<Rightarrow> Inr (TypeError (Some ErrInternal) (Some a) (Some b), h2))"
      using Variable by simp
    then show ?thesis using c2 by blast
  next
    case (TypeError e ex rc)
    have "Unify n a b h = Inr (TypeError (Some ErrInternal) (Some a) (Some b), h2)"
      if A: "Suc (max k1 k2) \<le> n" for n
    proof -
      obtain m where m: "n = Suc m" "max k1 k2 \<le> m" using A by (cases n) auto
      have R1: "Root m a h = Inr (Variable p, h1)" using k1 m(2) by simp
      have R2: "Root m b h1 = Inr (r, h2)" using k2 m(2) by simp
      show ?thesis unfolding m(1) Unify_roots[OF R1 R2] using TypeError by simp
    qed
    then have "\<forall>n\<ge>Suc (max k1 k2). Unify n a b h =
        (case r of
           Variable q \<Rightarrow>
             if ID (h p) \<noteq> ID (h q) then Inr (r, SetInstance p r h2) else Inr (Variable p, h2)
         | Operator nm args \<Rightarrow>
             if occurs h p r
             then Inr (TypeError (Some ErrRecursiveUnification) (Some (Variable p)) (Some r), h2)
             else Inr (r, SetInstance p r h2)
         | TypeError k ex rc \<Rightarrow> Inr (TypeError (Some ErrInternal) (Some a) (Some b), h2))"
      using TypeError by simp
    then show ?thesis using c2 by blast
  next
    case (Operator nm args)
    have "Unify n a b h =
        (if occurs h p r
         then Inr (TypeError (Some ErrRecursiveUnification) (Some (Variable p)) (Some r), h3)
         else Inr (r, SetInstance p r h3))"
      if A: "Suc (max (max k1 k2) k3) \<le> n" for n
    proof -
      obtain m where m: "n = Suc m" "max (max k1 k2) k3 \<le> m" using A by (cases n) auto
      have R1: "Root m a h = Inr (Variable p, h1)" using k1 m(2) by simp
      have R2: "Root m b h1 = Inr (r, h2)" using k2 m(2) by simp
      have O: "occursInType m (Variable p) r h2 = Inr (occurs h p r, h3)" using k3 m(2) by simp
      show ?thesis unfolding m(1) Unify_roots[OF R1 R2] using Operator O by simp
    qed
    then have "\<forall>n\<ge>Suc (max (max k1 k2) k3). Unify n a b h =
        (case r of
           Variable q \<Rightarrow>
             if ID (h p) \<noteq> ID (h q) then Inr (r, SetInstance p r h3) else Inr (Variable p, h3)
         | Operator nm args \<Rightarrow>
             if occurs h p r
             then Inr (TypeError (Some ErrRecursiveUnification) (Some (Variable p)) (Some r), h3)
             else Inr (r, SetInstance p r h3)
         | TypeError k ex rc \<Rightarrow> Inr (TypeError (Some ErrInternal) (Some a) (Some b), h3))"
      using Operator by simp
    then show ?thesis using c3 by blast
  qed
qed


lemma Unify_roots_swapped:
  assumes "Root n a h = Inr (Operator nm args, h1)" "Root n b h1 = Inr (Variable q, h2)"
  shows "Unify (Suc n) a b h =
    (case Unify n b a h2 of
       Inl f \<Rightarrow> Inl f
     | Inr (t, h3) \<Rightarrow>
         (case t of
            TypeError k ex rc \<Rightarrow> Inr (TypeError (Some ErrTypeMismatch) rc ex, h3)
          | _ \<Rightarrow> Inr (t, h3)))"
  using assms
  by (subst Unify.simps(2))
     (auto simp add: seq_def ret_def simp del: Root.simps Unify.simps
        split: sum.splits ty.splits)

lemma Unify_Operator_left:
  assumes a: "resolves h a (Operator nm args)" and b: "resolves h b (Variable q)"
    and fin: "finite_type h a"
  shows "\<exists>k h'. compressed h h' \<and> (\<forall>n\<ge>k. Unify n a b h =
    (if occurs h q a
     then Inr (TypeError (Some ErrTypeMismatch) (Some (Operator nm args)) (Some (Variable q)), h')
     else Inr (Operator nm args, SetInstance q (Operator nm args) h')))"
proof -
  from Root_complete[OF a] obtain k1 h1 where
    k1: "\<forall>n\<ge>k1. Root n a h = Inr (Operator nm args, h1)" by blast
  then have "Root k1 a h = Inr (Operator nm args, h1)" by simp
  then have c1: "compressed h h1" using Root_sound by blast
  have "resolves h1 b (Variable q)" using c1 b by (rule compressed_resolves)
  from Root_complete[OF this] obtain k2 h2 where
    k2: "\<forall>n\<ge>k2. Root n b h1 = Inr (Variable q, h2)" by blast
  then have "Root k2 b h1 = Inr (Variable q, h2)" by simp
  then have c12: "compressed h1 h2" using Root_sound by blast
  have c2: "compressed h h2" using c1 c12 by (rule compressed_trans)
  have b2: "resolves h2 b (Variable q)" using c2 b by (rule compressed_resolves)
  have a2: "resolves h2 a (Operator nm args)" using c2 a by (rule compressed_resolves)
  have fin2: "finite_type h2 a" using c2 fin by (rule compressed_finite_type)
  have oc: "occurs h2 q (Operator nm args) = occurs h q a"
    using occurs_root[OF a2, of q] compressed_occurs[OF c2, of q a] by simp
  from Unify_Variable_left[OF b2 a2 fin2] obtain k3 h3 where
    c23: "compressed h2 h3" and
    k3: "\<forall>n\<ge>k3. Unify n b a h2 =
      (if occurs h q a
       then Inr (TypeError (Some ErrRecursiveUnification) (Some (Variable q))
                   (Some (Operator nm args)), h3)
       else Inr (Operator nm args, SetInstance q (Operator nm args) h3))"
    using oc by auto
  have c3: "compressed h h3" using c2 c23 by (rule compressed_trans)
  have "Unify n a b h =
    (if occurs h q a
     then Inr (TypeError (Some ErrTypeMismatch) (Some (Operator nm args)) (Some (Variable q)), h3)
     else Inr (Operator nm args, SetInstance q (Operator nm args) h3))"
    if A: "Suc (max (max k1 k2) k3) \<le> n" for n
  proof -
    obtain m where m: "n = Suc m" "max (max k1 k2) k3 \<le> m" using A by (cases n) auto
    have R1: "Root m a h = Inr (Operator nm args, h1)" using k1 m(2) by simp
    have R2: "Root m b h1 = Inr (Variable q, h2)" using k2 m(2) by simp
    have U: "Unify m b a h2 =
      (if occurs h q a
       then Inr (TypeError (Some ErrRecursiveUnification) (Some (Variable q))
                   (Some (Operator nm args)), h3)
       else Inr (Operator nm args, SetInstance q (Operator nm args) h3))"
      using k3 m(2) by simp
    show ?thesis unfolding m(1) Unify_roots_swapped[OF R1 R2] U by simp
  qed
  then show ?thesis using c3 by blast
qed

text \<open>
  The sentence of the specification that a variable unified with any other type is
  bound to it does not hold for a type error: \<^verbatim>\<open>Unify\<close> has no case for it, returns the
  internal error and leaves the variable unbound. And with the operator as the first
  parameter a recursive occurrence is reported as a mismatch with the two fields
  swapped, not as a recursive unification.
\<close>

theorem Unify_TypeError_not_bound:
  "Unify 2 (Variable 0) (TypeError None None None) fresh =
     Inr (TypeError (Some ErrInternal) (Some (Variable 0)) (Some (TypeError None None None)),
          fresh) \<and>
   Instance (fresh 0) = None \<and>
   Unify 5 (Operator ''f'' [Variable 0]) (Variable 0) fresh =
     Inr (TypeError (Some ErrTypeMismatch) (Some (Operator ''f'' [Variable 0]))
            (Some (Variable 0)), fresh)"
  by (simp add: seq_def ret_def fresh_def numeral_eq_Suc)

text \<open>
  Claim C5, amended. Let the root of \<open>v\<close> be the unbound variable \<open>p\<close> and the root of
  \<open>t\<close> be \<open>r\<close>, where \<open>t\<close> is a finite type. Given a budget that covers the depth of the
  two types, \<^verbatim>\<open>Unify v t\<close> returns, in a heap \<open>h'\<close> that is \<open>h\<close> after path compression:
  the variable \<open>p\<close>, with no binding, when \<open>r\<close> is a variable of the same \<^verbatim>\<open>ID\<close>; \<open>r\<close>,
  after \<^verbatim>\<open>SetInstance\<close> has bound \<open>p\<close> to \<open>r\<close>, when \<open>r\<close> is a variable of another \<^verbatim>\<open>ID\<close>
  or an operator in which \<open>p\<close> does not occur; the error of a recursive unification
  holding \<open>p\<close> and \<open>r\<close>, with \<open>p\<close> still unbound, when \<open>r\<close> is an operator in which \<open>p\<close>
  occurs; and the internal error holding \<open>v\<close> and \<open>t\<close> when \<open>r\<close> is a type error. With
  the operator first, \<^verbatim>\<open>Unify t v\<close> binds \<open>p\<close> to \<open>r\<close> and returns \<open>r\<close> in the same way when
  \<open>p\<close> does not occur in \<open>t\<close>, and returns the mismatch of \<open>r\<close> and \<open>p\<close>, with \<open>p\<close> still
  unbound, when it does.
\<close>

theorem Unify_variable:
  assumes v: "resolves h v (Variable p)" and t: "resolves h t r" and fin: "finite_type h t"
  shows
    "(\<forall>q. r = Variable q \<and> ID (h q) = ID (h p) \<longrightarrow>
        (\<exists>k h'. compressed h h' \<and> (\<forall>n\<ge>k. Unify n v t h = Inr (Variable p, h')))) \<and>
     (\<forall>q. r = Variable q \<and> ID (h q) \<noteq> ID (h p) \<longrightarrow>
        (\<exists>k h'. compressed h h' \<and>
           (\<forall>n\<ge>k. Unify n v t h = Inr (r, SetInstance p r h')))) \<and>
     (\<forall>nm args. r = Operator nm args \<and> occurs h p t \<longrightarrow>
        (\<exists>k h'. compressed h h' \<and> Instance (h' p) = None \<and>
           (\<forall>n\<ge>k. Unify n v t h =
              Inr (TypeError (Some ErrRecursiveUnification) (Some (Variable p)) (Some r), h'))) \<and>
        (\<exists>k h'. compressed h h' \<and> Instance (h' p) = None \<and>
           (\<forall>n\<ge>k. Unify n t v h =
              Inr (TypeError (Some ErrTypeMismatch) (Some r) (Some (Variable p)), h')))) \<and>
     (\<forall>nm args. r = Operator nm args \<and> \<not> occurs h p t \<longrightarrow>
        (\<exists>k h'. compressed h h' \<and>
           (\<forall>n\<ge>k. Unify n v t h = Inr (r, SetInstance p r h'))) \<and>
        (\<exists>k h'. compressed h h' \<and>
           (\<forall>n\<ge>k. Unify n t v h = Inr (r, SetInstance p r h')))) \<and>
     (\<forall>e ex rc. r = TypeError e ex rc \<longrightarrow>
        (\<exists>k h'. compressed h h' \<and>
           (\<forall>n\<ge>k. Unify n v t h =
              Inr (TypeError (Some ErrInternal) (Some v) (Some t), h'))))"
proof -
  have pu: "Instance (h p) = None" using resolves_is_root[OF v] by simp
  have keep: "Instance (h' p) = None" if "compressed h h'" for h'
    using compressed_unbound[OF that, of p] pu by simp
  have oc: "occurs h p r = occurs h p t" using t by (rule occurs_root)
  from Unify_Variable_left[OF v t fin] obtain k h' where
    L: "compressed h h'" "\<forall>n\<ge>k. Unify n v t h =
    (case r of
       Variable q \<Rightarrow>
         if ID (h p) \<noteq> ID (h q) then Inr (r, SetInstance p r h') else Inr (Variable p, h')
     | Operator nm args \<Rightarrow>
         if occurs h p r
         then Inr (TypeError (Some ErrRecursiveUnification) (Some (Variable p)) (Some r), h')
         else Inr (r, SetInstance p r h')
     | TypeError k ex rc \<Rightarrow> Inr (TypeError (Some ErrInternal) (Some v) (Some t), h'))"
    by blast
  have 1: "\<exists>k h'. compressed h h' \<and> (\<forall>n\<ge>k. Unify n v t h = Inr (Variable p, h'))"
    if A: "r = Variable q \<and> ID (h q) = ID (h p)" for q
  proof -
    have "\<forall>n\<ge>k. Unify n v t h = Inr (Variable p, h')"
    proof (intro allI impI)
      fix n assume "k \<le> n"
      then show "Unify n v t h = Inr (Variable p, h')" using L(2) A by simp
    qed
    then show ?thesis using L(1) by blast
  qed
  have 2: "\<exists>k h'. compressed h h' \<and> (\<forall>n\<ge>k. Unify n v t h = Inr (r, SetInstance p r h'))"
    if A: "r = Variable q \<and> ID (h q) \<noteq> ID (h p)" for q
  proof -
    have "\<forall>n\<ge>k. Unify n v t h = Inr (r, SetInstance p r h')"
    proof (intro allI impI)
      fix n assume "k \<le> n"
      then have "Unify n v t h =
        (case r of
           Variable q \<Rightarrow>
             if ID (h p) \<noteq> ID (h q) then Inr (r, SetInstance p r h') else Inr (Variable p, h')
         | Operator nm args \<Rightarrow>
             if occurs h p r
             then Inr (TypeError (Some ErrRecursiveUnification) (Some (Variable p)) (Some r), h')
             else Inr (r, SetInstance p r h')
         | TypeError k ex rc \<Rightarrow> Inr (TypeError (Some ErrInternal) (Some v) (Some t), h'))"
        using L(2) by blast
      also have "\<dots> = Inr (r, SetInstance p r h')" using A by auto
      finally show "Unify n v t h = Inr (r, SetInstance p r h')" .
    qed
    then show ?thesis using L(1) by blast
  qed
  have 3: "\<exists>k h'. compressed h h' \<and> Instance (h' p) = None \<and>
           (\<forall>n\<ge>k. Unify n v t h =
              Inr (TypeError (Some ErrRecursiveUnification) (Some (Variable p)) (Some r), h'))"
    if A: "r = Operator nm args \<and> occurs h p t" for nm args
  proof -
    have "\<forall>n\<ge>k. Unify n v t h =
              Inr (TypeError (Some ErrRecursiveUnification) (Some (Variable p)) (Some r), h')"
    proof (intro allI impI)
      fix n assume "k \<le> n"
      then have "Unify n v t h =
        (case r of
           Variable q \<Rightarrow>
             if ID (h p) \<noteq> ID (h q) then Inr (r, SetInstance p r h') else Inr (Variable p, h')
         | Operator nm args \<Rightarrow>
             if occurs h p r
             then Inr (TypeError (Some ErrRecursiveUnification) (Some (Variable p)) (Some r), h')
             else Inr (r, SetInstance p r h')
         | TypeError k ex rc \<Rightarrow> Inr (TypeError (Some ErrInternal) (Some v) (Some t), h'))"
        using L(2) by blast
      also have "\<dots> =
          Inr (TypeError (Some ErrRecursiveUnification) (Some (Variable p)) (Some r), h')"
        using A oc by auto
      finally show "Unify n v t h =
          Inr (TypeError (Some ErrRecursiveUnification) (Some (Variable p)) (Some r), h')" .
    qed
    then show ?thesis using L(1) keep[OF L(1)] by blast
  qed
  have 4: "\<exists>k h'. compressed h h' \<and> (\<forall>n\<ge>k. Unify n v t h = Inr (r, SetInstance p r h'))"
    if A: "r = Operator nm args \<and> \<not> occurs h p t" for nm args
  proof -
    have "\<forall>n\<ge>k. Unify n v t h = Inr (r, SetInstance p r h')"
    proof (intro allI impI)
      fix n assume "k \<le> n"
      then have "Unify n v t h =
        (case r of
           Variable q \<Rightarrow>
             if ID (h p) \<noteq> ID (h q) then Inr (r, SetInstance p r h') else Inr (Variable p, h')
         | Operator nm args \<Rightarrow>
             if occurs h p r
             then Inr (TypeError (Some ErrRecursiveUnification) (Some (Variable p)) (Some r), h')
             else Inr (r, SetInstance p r h')
         | TypeError k ex rc \<Rightarrow> Inr (TypeError (Some ErrInternal) (Some v) (Some t), h'))"
        using L(2) by blast
      also have "\<dots> = Inr (r, SetInstance p r h')" using A oc by auto
      finally show "Unify n v t h = Inr (r, SetInstance p r h')" .
    qed
    then show ?thesis using L(1) by blast
  qed
  have 5: "\<exists>k h'. compressed h h' \<and>
           (\<forall>n\<ge>k. Unify n v t h = Inr (TypeError (Some ErrInternal) (Some v) (Some t), h'))"
    if A: "r = TypeError e ex rc" for e ex rc
  proof -
    have "\<forall>n\<ge>k. Unify n v t h = Inr (TypeError (Some ErrInternal) (Some v) (Some t), h')"
    proof (intro allI impI)
      fix n assume "k \<le> n"
      then have "Unify n v t h =
        (case r of
           Variable q \<Rightarrow>
             if ID (h p) \<noteq> ID (h q) then Inr (r, SetInstance p r h') else Inr (Variable p, h')
         | Operator nm args \<Rightarrow>
             if occurs h p r
             then Inr (TypeError (Some ErrRecursiveUnification) (Some (Variable p)) (Some r), h')
             else Inr (r, SetInstance p r h')
         | TypeError k ex rc \<Rightarrow> Inr (TypeError (Some ErrInternal) (Some v) (Some t), h'))"
        using L(2) by blast
      also have "\<dots> = Inr (TypeError (Some ErrInternal) (Some v) (Some t), h')"
        using A by auto
      finally show "Unify n v t h = Inr (TypeError (Some ErrInternal) (Some v) (Some t), h')" .
    qed
    then show ?thesis using L(1) by blast
  qed
  have 6: "\<exists>k h'. compressed h h' \<and> Instance (h' p) = None \<and>
           (\<forall>n\<ge>k. Unify n t v h =
              Inr (TypeError (Some ErrTypeMismatch) (Some r) (Some (Variable p)), h'))"
    if A: "r = Operator nm args \<and> occurs h p t" for nm args
  proof -
    have t': "resolves h t (Operator nm args)" using t A by simp
    from Unify_Operator_left[OF t' v fin] obtain k2 h2 where
      "compressed h h2" "\<forall>n\<ge>k2. Unify n t v h =
         Inr (TypeError (Some ErrTypeMismatch) (Some (Operator nm args)) (Some (Variable p)), h2)"
      using A by auto
    then show ?thesis using A keep by blast
  qed
  have 7: "\<exists>k h'. compressed h h' \<and> (\<forall>n\<ge>k. Unify n t v h = Inr (r, SetInstance p r h'))"
    if A: "r = Operator nm args \<and> \<not> occurs h p t" for nm args
  proof -
    have t': "resolves h t (Operator nm args)" using t A by simp
    from Unify_Operator_left[OF t' v fin] obtain k2 h2 where
      "compressed h h2" "\<forall>n\<ge>k2. Unify n t v h =
         Inr (Operator nm args, SetInstance p (Operator nm args) h2)"
      using A by auto
    then show ?thesis using A by blast
  qed
  show ?thesis
    by (intro conjI allI impI) (rule 1 2 3 4 5 6 7, assumption)+
qed

theorem Unify_variable_witness:
  "resolves fresh (Variable 0) (Variable 0) \<and>
   resolves fresh (Operator ''f'' [Variable 0]) (Operator ''f'' [Variable 0]) \<and>
   finite_type fresh (Operator ''f'' [Variable 0]) \<and>
   occurs fresh 0 (Operator ''f'' [Variable 0]) \<and>
   (\<exists>k h'. compressed fresh h' \<and> Instance (h' 0) = None \<and>
      (\<forall>n\<ge>k. Unify n (Variable 0) (Operator ''f'' [Variable 0]) fresh =
         Inr (TypeError (Some ErrRecursiveUnification) (Some (Variable 0))
                (Some (Operator ''f'' [Variable 0])), h'))) \<and>
   Unify 4 (Variable 0) (Operator ''f'' [Variable 0]) fresh =
     Inr (TypeError (Some ErrRecursiveUnification) (Some (Variable 0))
            (Some (Operator ''f'' [Variable 0])), fresh) \<and>
   finite_type fresh (Operator ''f'' [Variable 1]) \<and>
   \<not> occurs fresh 0 (Operator ''f'' [Variable 1]) \<and>
   (\<exists>k h'. compressed fresh h' \<and>
      (\<forall>n\<ge>k. Unify n (Variable 0) (Operator ''f'' [Variable 1]) fresh =
         Inr (Operator ''f'' [Variable 1],
              SetInstance 0 (Operator ''f'' [Variable 1]) h'))) \<and>
   Unify 4 (Variable 0) (Operator ''f'' [Variable 1]) fresh =
     Inr (Operator ''f'' [Variable 1], SetInstance 0 (Operator ''f'' [Variable 1]) fresh)"
proof -
  have u: "Instance (fresh q) = None" for q by (simp add: fresh_def)
  have rv: "resolves fresh (Variable q) (Variable q)" for q
    using u by (rule resolves.res_unbound)
  have ro: "resolves fresh (Operator ''f'' xs) (Operator ''f'' xs)" for xs
    by (rule resolves.res_Operator)
  have fv: "finite_type fresh (Variable q)" for q using rv by (rule finite_type.fin_Variable)
  have fo: "finite_type fresh (Operator ''f'' [Variable q])" for q
    using ro fv by (intro finite_type.fin_Operator[of fresh _ "''f''" "[Variable q]"]) simp_all
  have o0: "occurs fresh 0 (Operator ''f'' [Variable 0])"
    using occurs_Operator[OF ro, where args="[Variable 0]" and p=0]
      occurs_Variable[OF rv, where q=0 and p=0] by simp
  have o1: "\<not> occurs fresh 0 (Operator ''f'' [Variable 1])"
    using occurs_Operator[OF ro, where args="[Variable 1]" and p=0]
      occurs_Variable[OF rv, where q=1 and p=0]
    by (simp add: fresh_def)
  have E0: "Operator ''f'' [Variable 0] = Operator ''f'' [Variable 0] \<and>
      occurs fresh 0 (Operator ''f'' [Variable 0])" using o0 by simp
  have E1: "Operator ''f'' [Variable 1] = Operator ''f'' [Variable 1] \<and>
      \<not> occurs fresh 0 (Operator ''f'' [Variable 1])" using o1 by simp
  note T0 = Unify_variable[OF rv[of 0] ro[of "[Variable 0]"] fo[of 0]]
  note T1 = Unify_variable[OF rv[of 0] ro[of "[Variable 1]"] fo[of 1]]
  have A: "\<exists>k h'. compressed fresh h' \<and> Instance (h' 0) = None \<and>
      (\<forall>n\<ge>k. Unify n (Variable 0) (Operator ''f'' [Variable 0]) fresh =
         Inr (TypeError (Some ErrRecursiveUnification) (Some (Variable 0))
                (Some (Operator ''f'' [Variable 0])), h'))"
    by (rule T0[THEN conjunct2, THEN conjunct2, THEN conjunct1, rule_format, OF E0,
          THEN conjunct1])
  have B: "\<exists>k h'. compressed fresh h' \<and>
      (\<forall>n\<ge>k. Unify n (Variable 0) (Operator ''f'' [Variable 1]) fresh =
         Inr (Operator ''f'' [Variable 1],
              SetInstance 0 (Operator ''f'' [Variable 1]) h'))"
    by (rule T1[THEN conjunct2, THEN conjunct2, THEN conjunct2, THEN conjunct1, rule_format,
          OF E1, THEN conjunct1])
  have C: "Unify 4 (Variable 0) (Operator ''f'' [Variable 0]) fresh =
     Inr (TypeError (Some ErrRecursiveUnification) (Some (Variable 0))
            (Some (Operator ''f'' [Variable 0])), fresh)"
    by (simp add: seq_def ret_def fresh_def numeral_eq_Suc)
  have D: "Unify 4 (Variable 0) (Operator ''f'' [Variable 1]) fresh =
     Inr (Operator ''f'' [Variable 1], SetInstance 0 (Operator ''f'' [Variable 1]) fresh)"
    by (simp add: seq_def ret_def fresh_def numeral_eq_Suc)
  show ?thesis
    by (intro conjI) (rule rv ro fo o0 o1 A B C D)+
qed

end
